theory Spec2Isabelle
  imports Main "HOL-Library.List_Lexorder" "HOL-Library.Sublist"
begin

section \<open>Python values\<close>

text \<open>
  A Python \<open>str\<close> is a sequence of Unicode code points. The program tells apart
  \<open>U+00AC\<close> (not sign), \<open>U+2228\<close> (logical or) and \<open>U+2116\<close> (numero sign), so a
  string is a list of code points, not of bytes. Strings compare as Python compares
  them: lexicographically by code point, a proper prefix first (the order of
  \<open>List_Lexorder\<close>).
\<close>

type_synonym pystr = "nat list"

definition ascii :: "string \<Rightarrow> pystr" where
  "ascii s = map of_char s"

text \<open>\<open>str(n)\<close> for a non-negative integer: its decimal digits.\<close>

fun str_nat :: "nat \<Rightarrow> pystr" where
  "str_nat n = (if n < 10 then [48 + n] else str_nat (n div 10) @ [48 + n mod 10])"

declare str_nat.simps [simp del]

text \<open>\<open>int(b)\<close> for a \<open>bool\<close>.\<close>

definition int_of_bool :: "bool \<Rightarrow> nat" where
  "int_of_bool b = (if b then 1 else 0)"

text \<open>
  \<open>str.isspace\<close>: the code points Python treats as whitespace, which \<open>str.strip()\<close>
  removes from both ends.
\<close>

definition is_space :: "nat \<Rightarrow> bool" where
  "is_space c =
     (c \<in> set [9, 10, 11, 12, 13, 28, 29, 30, 31, 32, 133, 160, 5760,
                8232, 8233, 8239, 8287, 12288]
      \<or> (8192 \<le> c \<and> c \<le> 8202))"

definition strip :: "pystr \<Rightarrow> pystr" where
  "strip s = rev (dropWhile is_space (rev (dropWhile is_space s)))"

text \<open>\<open>s.replace(old, new)\<close> where \<open>old\<close> and \<open>new\<close> are one code point each.\<close>

definition replace :: "nat \<Rightarrow> nat \<Rightarrow> pystr \<Rightarrow> pystr" where
  "replace old new s = map (\<lambda>c. if c = old then new else c) s"

text \<open>
  A dict built by a comprehension: the pairs are stored in order, a later pair
  overwriting an earlier one with the same key.
\<close>

definition dict_of :: "('k \<times> 'v) list \<Rightarrow> ('k \<rightharpoonup> 'v)" where
  "dict_of kvs = fold (\<lambda>(k, v) d. d(k \<mapsto> v)) kvs Map.empty"

text \<open>
  \<open>itertools.product(pool, repeat=n)\<close>: starting from the single empty tuple, each
  round extends every tuple built so far by every element of the pool, in order.
\<close>

primrec product_repeat :: "'a list \<Rightarrow> nat \<Rightarrow> 'a list list" where
  "product_repeat pool 0 = [[]]"
| "product_repeat pool (Suc n) =
     concat (map (\<lambda>x. map (\<lambda>y. x @ [y]) pool) (product_repeat pool n))"

text \<open>The exceptions of the program and of the libraries it calls.\<close>

datatype exn =
    ValueError pystr
  | LibraryError pystr
  | IndexError
  | EOFError
  | OSError

text \<open>\<open>str(e)\<close>: the message of an exception.\<close>

fun exn_str :: "exn \<Rightarrow> pystr" where
  "exn_str (ValueError m) = m"
| "exn_str (LibraryError m) = m"
| "exn_str IndexError = ascii ''list index out of range''"
| "exn_str EOFError = ascii ''EOF when reading a line''"
| "exn_str OSError = []"

section \<open>The regular expression of the translator\<close>

text \<open>
  \<open>re.findall(r'\b[A-Za-z_][A-Za-z0-9_]*\b', s)\<close>. The character classes are ASCII;
  \<open>\b\<close> is a boundary between a word character \<open>\w\<close> and a non-word character or an
  end of the string, and for a \<open>str\<close> pattern \<open>\w\<close> is Unicode-aware: the ASCII
  letters, digits and underscore, and beyond ASCII whatever the Unicode database
  calls alphanumeric. That part of the database is the parameter \<open>w\<close>.
\<close>

definition ident_start :: "nat \<Rightarrow> bool" where
  "ident_start c = ((65 \<le> c \<and> c \<le> 90) \<or> (97 \<le> c \<and> c \<le> 122) \<or> c = 95)"

definition ident_char :: "nat \<Rightarrow> bool" where
  "ident_char c = (ident_start c \<or> (48 \<le> c \<and> c \<le> 57))"

definition is_word :: "(nat \<Rightarrow> bool) \<Rightarrow> nat \<Rightarrow> bool" where
  "is_word w c = (if c < 128 then ident_char c else w c)"

definition next_is_word :: "(nat \<Rightarrow> bool) \<Rightarrow> pystr \<Rightarrow> bool" where
  "next_is_word w rest = (case rest of [] \<Rightarrow> False | d # _ \<Rightarrow> is_word w d)"

text \<open>\<open>\b\<close> between two positions: exactly one side is a word character.\<close>

definition word_boundary :: "bool \<Rightarrow> bool \<Rightarrow> bool" where
  "word_boundary lw rw = (if lw then \<not> rw else rw)"

text \<open>
  One match attempt at the start of \<open>s\<close>, where \<open>pw\<close> tells whether the character
  before \<open>s\<close> is a word character. The star is greedy and backtracks: the candidate
  lengths are tried longest first, and the first one that ends at a boundary wins.
  The result is the matched text and the rest of the string.
\<close>

definition match_ident :: "(nat \<Rightarrow> bool) \<Rightarrow> bool \<Rightarrow> pystr \<Rightarrow> (pystr \<times> pystr) option" where
  "match_ident w pw s =
     (case s of
        [] \<Rightarrow> None
      | c # cs \<Rightarrow>
          if word_boundary pw (is_word w c) \<and> ident_start c
          then find (\<lambda>(m, rest). word_boundary (is_word w (last m)) (next_is_word w rest))
                 (map (\<lambda>k. (c # take k cs, drop k cs))
                      (rev [0..<Suc (length (takeWhile ident_char cs))]))
          else None)"

text \<open>
  \<open>findall\<close> scans from left to right: after a match it goes on behind the match,
  otherwise one character further.
\<close>

function re_findall :: "(nat \<Rightarrow> bool) \<Rightarrow> bool \<Rightarrow> pystr \<Rightarrow> pystr list" where
  "re_findall w pw [] = []"
| "re_findall w pw (c # cs) =
     (case match_ident w pw (c # cs) of
        Some (m, rest) \<Rightarrow> m # re_findall w True rest
      | None \<Rightarrow> re_findall w (is_word w c) cs)"
  by pat_completeness auto
termination
  by (relation "measure (\<lambda>(w, pw, s). length s)")
     (auto simp: match_ident_def find_Some_iff split: if_splits)

declare re_findall.simps(2) [simp del]

section \<open>The libraries\<close>

text \<open>
  The program calls an expression library (\<open>symbols\<close>, \<open>sympify\<close>, \<open>subs\<close>) and a
  document library. A symbol of the expression library is identified by its name.
\<close>

datatype symbol = Symbol pystr

fun symbol_name :: "symbol \<Rightarrow> pystr" where
  "symbol_name (Symbol n) = n"

text \<open>\<open>symbols(names)\<close> for a list of identifiers: one symbol per name.\<close>

definition symbols :: "pystr list \<Rightarrow> symbol list" where
  "symbols names = map Symbol names"

text \<open>
  What the program takes from outside, as parameters of the model:
  \<^item> \<open>re_word\<close>: which code points beyond ASCII are word characters for \<open>\w\<close>;
  \<^item> \<open>sympify\<close>: \<open>sympify(expr_str, locals=var_dict)\<close>, an expression or an exception;
  \<^item> \<open>subs_bool\<close>: \<open>bool(expr.subs(val_dict))\<close>, a truth value or an exception.
\<close>

record 'e libs =
  re_word :: "nat \<Rightarrow> bool"
  sympify :: "pystr \<Rightarrow> (pystr \<rightharpoonup> symbol) \<Rightarrow> exn + 'e"
  subs_bool :: "'e \<Rightarrow> (symbol \<rightharpoonup> nat) \<Rightarrow> exn + bool"

section \<open>The notation translator: \<open>parse_boolean_expression\<close>\<close>

text \<open>The chain of \<open>replace\<close> calls, in the order of the source.\<close>

definition translate :: "pystr \<Rightarrow> pystr" where
  "translate expr_input =
     replace 8744 124 (replace 43 124 (replace 94 38 (replace 42 38
       (replace 172 126 expr_input))))"

text \<open>\<open>sorted(set(re.findall(...)))\<close>.\<close>

definition extract_variables :: "(nat \<Rightarrow> bool) \<Rightarrow> pystr \<Rightarrow> pystr list" where
  "extract_variables w expr_str = sort (remdups (re_findall w False expr_str))"

definition empty_message :: pystr where
  "empty_message = ascii ''Expression cannot be empty.''"

definition no_variables_message :: pystr where
  "no_variables_message =
     ascii ''No valid variables found in expression (expected names like x1, x_2, F).''"

text \<open>The message of the \<open>except\<close> clause; 39 is the apostrophe, 10 the newline.\<close>

definition invalid_message :: "pystr \<Rightarrow> pystr \<Rightarrow> pystr" where
  "invalid_message expr_input reason =
     ascii ''Invalid Boolean expression: '' @ [39] @ expr_input @ [39] @ ascii ''.''
       @ [10] @ ascii ''Error: '' @ reason"

text \<open>The body of the \<open>try\<close> block.\<close>

definition parse_body ::
  "'e libs \<Rightarrow> pystr \<Rightarrow> exn + ('e \<times> symbol list \<times> pystr list)" where
  "parse_body L expr_input =
     (let expr_str = translate expr_input;
          vars_names = extract_variables (re_word L) expr_str
      in if vars_names = [] then Inl (ValueError no_variables_message)
         else let variables = symbols vars_names;
                  var_dict = dict_of (map (\<lambda>v. (symbol_name v, v)) variables)
              in case sympify L expr_str var_dict of
                   Inl e \<Rightarrow> Inl e
                 | Inr sympy_expr \<Rightarrow> Inr (sympy_expr, variables, vars_names))"

definition parse_boolean_expression ::
  "'e libs \<Rightarrow> pystr \<Rightarrow> exn + ('e \<times> symbol list \<times> pystr list)" where
  "parse_boolean_expression L expr_input0 =
     (let expr_input = strip expr_input0
      in if expr_input = [] then Inl (ValueError empty_message)
         else case parse_body L expr_input of
                Inl e \<Rightarrow> Inl (ValueError (invalid_message expr_input (exn_str e)))
              | Inr r \<Rightarrow> Inr r)"

section \<open>The table enumerator: \<open>generate_truth_table\<close>\<close>

definition val_dict :: "symbol list \<Rightarrow> nat list \<Rightarrow> (symbol \<rightharpoonup> nat)" where
  "val_dict variables values =
     dict_of (map (\<lambda>j. (variables ! j, values ! j)) [0..<length variables])"

text \<open>One round of the loop: the row for index \<open>i\<close> and assignment \<open>values\<close>.\<close>

definition make_row ::
  "'e libs \<Rightarrow> 'e \<Rightarrow> symbol list \<Rightarrow> nat \<Rightarrow> nat list \<Rightarrow> exn + pystr list" where
  "make_row L sympy_expr variables i values =
     (case subs_bool L sympy_expr (val_dict variables values) of
        Inl e \<Rightarrow> Inl e
      | Inr b \<Rightarrow> Inr ([str_nat i] @ map str_nat values @ [str_nat (int_of_bool b)]))"

fun table_loop ::
  "'e libs \<Rightarrow> 'e \<Rightarrow> symbol list \<Rightarrow> (nat \<times> nat list) list \<Rightarrow> pystr list list
     \<Rightarrow> exn + pystr list list" where
  "table_loop L sympy_expr variables [] rows_data = Inr rows_data"
| "table_loop L sympy_expr variables ((i, values) # rest) rows_data =
     (case make_row L sympy_expr variables i values of
        Inl e \<Rightarrow> Inl e
      | Inr row \<Rightarrow> table_loop L sympy_expr variables rest (rows_data @ [row]))"

definition generate_truth_table ::
  "'e libs \<Rightarrow> 'e \<Rightarrow> symbol list \<Rightarrow> exn + pystr list list" where
  "generate_truth_table L sympy_expr variables =
     table_loop L sympy_expr variables
       (enumerate 0 (product_repeat [0, 1] (length variables))) []"

section \<open>The table renderer: \<open>create_docx_table\<close>\<close>

text \<open>
  A document is its caption paragraph and the texts of the table's cells, row by
  row. Typeface, alignment and border settings do not change any text and are left
  out.
\<close>

record docx =
  caption :: pystr
  cells :: "pystr list list"

text \<open>\<open>doc.add_table(rows, cols)\<close>: a grid of empty cells.\<close>

definition add_table :: "nat \<Rightarrow> nat \<Rightarrow> pystr list list" where
  "add_table rows cols = replicate rows (replicate cols [])"

text \<open>
  \<open>set_cell_center(table.rows[r].cells[c], text)\<close>: indexing outside the grid raises
  \<open>IndexError\<close>.
\<close>

definition set_cell :: "pystr list list \<Rightarrow> nat \<Rightarrow> nat \<Rightarrow> pystr \<Rightarrow> exn + pystr list list" where
  "set_cell grid r c text =
     (if r < length grid \<and> c < length (grid ! r)
      then Inr (grid[r := (grid ! r)[c := text]])
      else Inl IndexError)"

fun fill_cells :: "pystr list list \<Rightarrow> (nat \<times> nat \<times> pystr) list \<Rightarrow> exn + pystr list list" where
  "fill_cells grid [] = Inr grid"
| "fill_cells grid ((r, c, text) # rest) =
     (case set_cell grid r c text of
        Inl e \<Rightarrow> Inl e
      | Inr grid' \<Rightarrow> fill_cells grid' rest)"

text \<open>
  The header row: the numero sign, the variable names, and \<open>f\<close> in the last cell
  (\<open>hdr_cells[-1]\<close>).
\<close>

definition header_writes :: "pystr list \<Rightarrow> nat \<Rightarrow> (nat \<times> nat \<times> pystr) list" where
  "header_writes vars_names cols =
     [(0, 0, [8470])]
     @ map (\<lambda>(j, name). (0, j + 1, name)) (enumerate 0 vars_names)
     @ [(0, cols - 1, ascii ''f'')]"

text \<open>The data rows: value \<open>j\<close> of row \<open>i\<close> goes to cell \<open>j\<close> of table row \<open>i + 1\<close>.\<close>

definition data_writes :: "pystr list list \<Rightarrow> (nat \<times> nat \<times> pystr) list" where
  "data_writes rows_data =
     concat (map (\<lambda>(i, row). map (\<lambda>(j, val). (i + 1, j, val)) (enumerate 0 row))
                 (enumerate 0 rows_data))"

text \<open>What a run does to the outside: prompts, printed lines, and saved documents.\<close>

datatype event =
    Prompt
  | Print pystr
  | Save pystr docx

definition saved_message :: "pystr \<Rightarrow> pystr" where
  "saved_message output_file = ascii ''Truth table saved to '' @ output_file"

text \<open>
  \<open>create_docx_table\<close>. \<open>save_error\<close> is what \<open>doc.save\<close> raises, if anything. The
  result is the events and the exception that ended the call, if any.
\<close>

definition create_docx_table ::
  "exn option \<Rightarrow> pystr list list \<Rightarrow> pystr list \<Rightarrow> pystr \<Rightarrow> pystr
     \<Rightarrow> event list \<times> exn option" where
  "create_docx_table save_error rows_data vars_names user_expression output_file =
     (let para = ascii ''Boolean function: '' @ user_expression;
          cols = length vars_names + 2;
          grid = add_table (length rows_data + 1) cols
      in case fill_cells grid (header_writes vars_names cols @ data_writes rows_data) of
           Inl e \<Rightarrow> ([], Some e)
         | Inr grid' \<Rightarrow>
             (case save_error of
                Some e \<Rightarrow> ([], Some e)
              | None \<Rightarrow>
                  ([Save output_file \<lparr>caption = para, cells = grid'\<rparr>,
                    Print (saved_message output_file)], None)))"

section \<open>The main program\<close>

text \<open>
  The world of a run: the lines that \<open>input()\<close> returns, in order (after the last
  one it raises \<open>EOFError\<close>), and what saving the document raises, if anything.
\<close>

record world =
  stdin :: "pystr list"
  save_error :: "exn option"

definition empty_retry_message :: pystr where
  "empty_retry_message =
     ascii ''Error: Expression cannot be empty. Please try again.'' @ [10]"

definition retry_message :: "exn \<Rightarrow> pystr" where
  "retry_message e =
     ascii ''Error: '' @ exn_str e @ [10] @ ascii ''Please try again.'' @ [10]"

definition prepend :: "event list \<Rightarrow> event list \<times> 'a \<Rightarrow> event list \<times> 'a" where
  "prepend evs r = (evs @ fst r, snd r)"

text \<open>
  The input loop. It ends with the accepted input and its parse, or with an
  exception that the loop does not catch.
\<close>

fun input_loop ::
  "'e libs \<Rightarrow> pystr list
     \<Rightarrow> event list \<times> (exn + (pystr \<times> 'e \<times> symbol list \<times> pystr list))" where
  "input_loop L [] = ([Prompt], Inl EOFError)"
| "input_loop L (line # rest) =
     (let user_input = strip line
      in if user_input = []
         then prepend [Prompt, Print empty_retry_message] (input_loop L rest)
         else case parse_boolean_expression L user_input of
                Inr (expr, variables, vars_names) \<Rightarrow>
                  ([Prompt], Inr (user_input, expr, variables, vars_names))
              | Inl (ValueError m) \<Rightarrow>
                  prepend [Prompt, Print (retry_message (ValueError m))] (input_loop L rest)
              | Inl e \<Rightarrow> ([Prompt], Inl e))"

definition output_file_default :: pystr where
  "output_file_default = ascii ''truth_table.docx''"

definition main :: "'e libs \<Rightarrow> world \<Rightarrow> event list \<times> exn option" where
  "main L wd =
     (case input_loop L (stdin wd) of
        (evs, Inl e) \<Rightarrow> (evs, Some e)
      | (evs, Inr (user_input, expr, variables, vars_names)) \<Rightarrow>
          (case generate_truth_table L expr variables of
             Inl e \<Rightarrow> (evs, Some e)
           | Inr rows_data \<Rightarrow>
               prepend evs
                 (create_docx_table (save_error wd) rows_data vars_names user_input
                    output_file_default)))"

text \<open>The documents a run has saved.\<close>

fun saved_docs :: "event list \<Rightarrow> docx list" where
  "saved_docs [] = []"
| "saved_docs (Save path d # evs) = d # saved_docs evs"
| "saved_docs (ev # evs) = saved_docs evs"

section \<open>A reference expression engine\<close>

text \<open>
  Modelled from the spec: the expression engine is an external library and not part
  of the sources. The specification describes it as an engine that accepts the
  canonical logical syntax, returns an evaluable tree and evaluates it by
  substitution, with the precedence NOT over AND over OR, operators of equal
  precedence grouped from left to right, and parentheses overriding; it names the
  tree \<open>Not(expr)\<close>, \<open>And(expr, expr)\<close>, \<open>Or(expr, expr)\<close>, \<open>Var(name)\<close> with a
  recursive evaluator over bound 0/1 values. \<open>formula_libs\<close> is that engine for the
  strings made of identifiers, \<open>~\<close>, \<open>&\<close>, \<open>|\<close>, parentheses, spaces and tabs.
  Every other string, a Python keyword used as a name, a name that \<open>locals\<close> does not
  bind and a variable without a value are reported as a failure of the library,
  whose own messages are not modelled. The scenarios and the concrete instances are
  computed with this engine; what is stated for every \<open>libs\<close> does not depend on it.
\<close>

datatype token = TName pystr | TNot | TAnd | TOr | TLPar | TRPar

function tokenize :: "pystr \<Rightarrow> token list option" where
  "tokenize [] = Some []"
| "tokenize (c # cs) =
     (if c = 32 \<or> c = 9 then tokenize cs
      else if c = 126 then map_option ((#) TNot) (tokenize cs)
      else if c = 38 then map_option ((#) TAnd) (tokenize cs)
      else if c = 124 then map_option ((#) TOr) (tokenize cs)
      else if c = 40 then map_option ((#) TLPar) (tokenize cs)
      else if c = 41 then map_option ((#) TRPar) (tokenize cs)
      else if ident_start c
      then map_option ((#) (TName (c # takeWhile ident_char cs)))
             (tokenize (dropWhile ident_char cs))
      else None)"
  by pat_completeness auto
termination
  by (relation "measure length") (auto simp: less_Suc_eq_le length_dropWhile_le)

datatype 'a formula =
    VarE 'a
  | NotE "'a formula"
  | AndE "'a formula" "'a formula"
  | OrE "'a formula" "'a formula"

text \<open>
  Recursive descent: \<open>parse_or\<close> reads operands of \<open>|\<close>, \<open>parse_and\<close> operands of
  \<open>&\<close>, \<open>parse_unary\<close> a name, a negation or a parenthesised formula. Each returns
  the tree and the tokens left. The length tests always hold (a parser returns a
  suffix of what it was given); they are there for the termination proof.
\<close>

function parse_or :: "token list \<Rightarrow> (pystr formula \<times> token list) option"
  and or_rest :: "pystr formula \<Rightarrow> token list \<Rightarrow> (pystr formula \<times> token list) option"
  and parse_and :: "token list \<Rightarrow> (pystr formula \<times> token list) option"
  and and_rest :: "pystr formula \<Rightarrow> token list \<Rightarrow> (pystr formula \<times> token list) option"
  and parse_unary :: "token list \<Rightarrow> (pystr formula \<times> token list) option" where
  "parse_or ts =
     (case parse_and ts of
        None \<Rightarrow> None
      | Some (e, r) \<Rightarrow> if length r \<le> length ts then or_rest e r else None)"
| "or_rest e [] = Some (e, [])"
| "or_rest e (t # r) =
     (if t = TOr
      then (case parse_and r of
              None \<Rightarrow> None
            | Some (e', r') \<Rightarrow> if length r' \<le> length r then or_rest (OrE e e') r' else None)
      else Some (e, t # r))"
| "parse_and ts =
     (case parse_unary ts of
        None \<Rightarrow> None
      | Some (e, r) \<Rightarrow> if length r \<le> length ts then and_rest e r else None)"
| "and_rest e [] = Some (e, [])"
| "and_rest e (t # r) =
     (if t = TAnd
      then (case parse_unary r of
              None \<Rightarrow> None
            | Some (e', r') \<Rightarrow> if length r' \<le> length r then and_rest (AndE e e') r' else None)
      else Some (e, t # r))"
| "parse_unary [] = None"
| "parse_unary (TName x # r) = Some (VarE x, r)"
| "parse_unary (TNot # r) =
     (case parse_unary r of None \<Rightarrow> None | Some (e, r') \<Rightarrow> Some (NotE e, r'))"
| "parse_unary (TLPar # r) =
     (case parse_or r of
        Some (e, TRPar # r') \<Rightarrow> Some (e, r')
      | _ \<Rightarrow> None)"
| "parse_unary (TAnd # r) = None"
| "parse_unary (TOr # r) = None"
| "parse_unary (TRPar # r) = None"
  by pat_completeness auto
termination
  by (relation "measures [
         (\<lambda>x. case x of Inl (Inl ts) \<Rightarrow> length ts | Inl (Inr (e, ts)) \<Rightarrow> length ts
              | Inr (Inl ts) \<Rightarrow> length ts | Inr (Inr (Inl (e, ts))) \<Rightarrow> length ts
              | Inr (Inr (Inr ts)) \<Rightarrow> length ts),
         (\<lambda>x. case x of Inl (Inl ts) \<Rightarrow> 5 | Inl (Inr (e, ts)) \<Rightarrow> 4
              | Inr (Inl ts) \<Rightarrow> 3 | Inr (Inr (Inl (e, ts))) \<Rightarrow> 2
              | Inr (Inr (Inr ts)) \<Rightarrow> 1)]")
     auto

definition is_keyword :: "pystr \<Rightarrow> bool" where
  "is_keyword x =
     (x \<in> set (map ascii
        [''False'', ''None'', ''True'', ''and'', ''as'', ''assert'', ''async'', ''await'',
         ''break'', ''class'', ''continue'', ''def'', ''del'', ''elif'', ''else'', ''except'',
         ''finally'', ''for'', ''from'', ''global'', ''if'', ''import'', ''in'', ''is'',
         ''lambda'', ''nonlocal'', ''not'', ''or'', ''pass'', ''raise'', ''return'', ''try'',
         ''while'', ''with'', ''yield'']))"

text \<open>The names of a tree become the symbols that \<open>locals\<close> binds them to.\<close>

fun resolve :: "(pystr \<rightharpoonup> symbol) \<Rightarrow> pystr formula \<Rightarrow> symbol formula option" where
  "resolve loc (VarE x) = (if is_keyword x then None else map_option VarE (loc x))"
| "resolve loc (NotE e) = map_option NotE (resolve loc e)"
| "resolve loc (AndE e1 e2) =
     (case (resolve loc e1, resolve loc e2) of
        (Some a, Some b) \<Rightarrow> Some (AndE a b)
      | _ \<Rightarrow> None)"
| "resolve loc (OrE e1 e2) =
     (case (resolve loc e1, resolve loc e2) of
        (Some a, Some b) \<Rightarrow> Some (OrE a b)
      | _ \<Rightarrow> None)"

text \<open>The evaluator: a variable is true when its value is not 0.\<close>

fun eval_formula :: "(symbol \<rightharpoonup> nat) \<Rightarrow> symbol formula \<Rightarrow> bool option" where
  "eval_formula d (VarE v) = map_option (\<lambda>n. n \<noteq> 0) (d v)"
| "eval_formula d (NotE e) = map_option Not (eval_formula d e)"
| "eval_formula d (AndE e1 e2) =
     (case (eval_formula d e1, eval_formula d e2) of
        (Some a, Some b) \<Rightarrow> Some (a \<and> b)
      | _ \<Rightarrow> None)"
| "eval_formula d (OrE e1 e2) =
     (case (eval_formula d e1, eval_formula d e2) of
        (Some a, Some b) \<Rightarrow> Some (a \<or> b)
      | _ \<Rightarrow> None)"

definition library_failure :: exn where
  "library_failure = LibraryError (ascii ''not a Boolean formula'')"

definition formula_sympify :: "pystr \<Rightarrow> (pystr \<rightharpoonup> symbol) \<Rightarrow> exn + symbol formula" where
  "formula_sympify s loc =
     (case tokenize s of
        None \<Rightarrow> Inl library_failure
      | Some ts \<Rightarrow>
          (case parse_or ts of
             Some (e, []) \<Rightarrow>
               (case resolve loc e of None \<Rightarrow> Inl library_failure | Some e' \<Rightarrow> Inr e')
           | _ \<Rightarrow> Inl library_failure))"

definition formula_subs_bool :: "symbol formula \<Rightarrow> (symbol \<rightharpoonup> nat) \<Rightarrow> exn + bool" where
  "formula_subs_bool e d =
     (case eval_formula d e of None \<Rightarrow> Inl library_failure | Some b \<Rightarrow> Inr b)"

definition formula_libs :: "(nat \<Rightarrow> bool) \<Rightarrow> symbol formula libs" where
  "formula_libs w =
     \<lparr>re_word = w, sympify = formula_sympify, subs_bool = formula_subs_bool\<rparr>"

section \<open>Notions used to state the properties\<close>

text \<open>
  Translation followed by enumeration, as \<open>main\<close> chains them: the variable names
  and the rows of the table.
\<close>

definition parse_and_generate :: "'e libs \<Rightarrow> pystr \<Rightarrow> exn + (pystr list \<times> pystr list list)" where
  "parse_and_generate L expr_input =
     (case parse_boolean_expression L expr_input of
        Inl e \<Rightarrow> Inl e
      | Inr (expr, variables, vars_names) \<Rightarrow>
          (case generate_truth_table L expr variables of
             Inl e \<Rightarrow> Inl e
           | Inr rows_data \<Rightarrow> Inr (vars_names, rows_data)))"

text \<open>The symbol mapping, one code point at a time.\<close>

definition symbol_map :: "nat \<Rightarrow> nat" where
  "symbol_map c =
     (if c = 172 then 126
      else if c = 42 \<or> c = 94 then 38
      else if c = 43 \<or> c = 8744 then 124
      else c)"

text \<open>The binary digits of \<open>i\<close> in \<open>n\<close> bits, most significant first.\<close>

definition binary_digits :: "nat \<Rightarrow> nat \<Rightarrow> nat list" where
  "binary_digits n i = map (\<lambda>k. (i div 2 ^ (n - 1 - k)) mod 2) [0..<n]"

text \<open>The maximal runs of word characters of a string, from left to right.\<close>

function word_runs :: "(nat \<Rightarrow> bool) \<Rightarrow> pystr \<Rightarrow> pystr list" where
  "word_runs w [] = []"
| "word_runs w (c # cs) =
     (if is_word w c
      then (c # takeWhile (is_word w) cs) # word_runs w (dropWhile (is_word w) cs)
      else word_runs w cs)"
  by pat_completeness auto
termination
  by (relation "measure (\<lambda>(w, s). length s)")
     (auto simp: less_Suc_eq_le length_dropWhile_le)

text \<open>A whole string matches \<open>[A-Za-z_][A-Za-z0-9_]*\<close>.\<close>

definition is_identifier :: "pystr \<Rightarrow> bool" where
  "is_identifier t = (case t of [] \<Rightarrow> False | c # cs \<Rightarrow> ident_start c \<and> list_all ident_char cs)"

text \<open>
  The maximal pieces of a string that match \<open>[A-Za-z_][A-Za-z0-9_]*\<close>, whatever
  stands before and after them: a piece starts at a letter or underscore that is not
  inside an earlier piece and extends as far as letters, digits and underscores go.
\<close>

function maximal_tokens :: "pystr \<Rightarrow> pystr list" where
  "maximal_tokens [] = []"
| "maximal_tokens (c # cs) =
     (if ident_start c
      then (c # takeWhile ident_char cs) # maximal_tokens (dropWhile ident_char cs)
      else maximal_tokens cs)"
  by pat_completeness auto
termination
  by (relation "measure length") (auto simp: less_Suc_eq_le length_dropWhile_le)

text \<open>
  The input loop accepts a line when it is not empty after stripping and the
  translator returns a result for it.
\<close>

definition accepted :: "'e libs \<Rightarrow> pystr \<Rightarrow> bool" where
  "accepted L line =
     (if strip line = [] then False
      else case parse_boolean_expression L (strip line) of
             Inl e \<Rightarrow> False
           | Inr r \<Rightarrow> True)"

section \<open>Auxiliary facts\<close>

subsection \<open>Strings\<close>

lemma ascii_simps: "ascii [] = []" "ascii (c # cs) = of_char c # ascii cs"
  by (simp_all add: ascii_def)

subsection \<open>The regular expression\<close>

lemma ident_start_char: "ident_start c \<Longrightarrow> ident_char c"
  by (simp add: ident_char_def)

lemma ident_char_word: "ident_char c \<Longrightarrow> is_word w c"
  by (auto simp: is_word_def ident_char_def ident_start_def)

lemma take_length_takeWhile: "take (length (takeWhile P xs)) xs = takeWhile P xs"
  by (induction xs) auto

lemma drop_length_takeWhile: "drop (length (takeWhile P xs)) xs = dropWhile P xs"
  by (induction xs) auto

lemma last_ident_word:
  assumes "ident_start c"
  shows "is_word w (last (c # takeWhile ident_char cs))"
proof -
  have "\<forall>x \<in> set (c # takeWhile ident_char cs). ident_char x"
    using assms by (auto simp: ident_start_char dest: set_takeWhileD)
  then have "ident_char (last (c # takeWhile ident_char cs))"
    using last_in_set [of "c # takeWhile ident_char cs"] by blast
  then show ?thesis by (rule ident_char_word)
qed

text \<open>A candidate shorter than the greedy one ends inside the identifier characters.\<close>

lemma shorter_candidates_fail:
  assumes "k < length (takeWhile ident_char cs)"
  shows "next_is_word w (drop k cs)"
proof -
  have k: "k < length cs"
    using assms length_takeWhile_le [of ident_char cs] by (meson less_le_trans)
  have "ident_char (cs ! k)"
    using assms by (metis nth_mem set_takeWhileD takeWhile_nth)
  moreover have "drop k cs = cs ! k # drop (Suc k) cs"
    using k by (simp add: Cons_nth_drop_Suc)
  ultimately show ?thesis
    by (simp add: next_is_word_def ident_char_word)
qed

text \<open>So backtracking never helps: a match is the greedy one or none.\<close>

lemma match_ident_greedy:
  "match_ident w pw (c # cs) =
     (if \<not> pw \<and> ident_start c \<and> \<not> next_is_word w (dropWhile ident_char cs)
      then Some (c # takeWhile ident_char cs, dropWhile ident_char cs)
      else None)"
proof (cases "\<not> pw \<and> ident_start c")
  case False
  then show ?thesis
    by (auto simp: match_ident_def word_boundary_def ident_char_word ident_start_char)
next
  case True
  let ?n = "length (takeWhile ident_char cs)"
  let ?P = "\<lambda>(m, rest). word_boundary (is_word w (last m)) (next_is_word w rest)"
  let ?f = "\<lambda>k. (c # take k cs, drop k cs)"
  have guard: "word_boundary pw (is_word w c) \<and> ident_start c"
    using True by (simp add: word_boundary_def ident_char_word ident_start_char)
  have shorter: "find ?P (map ?f (rev [0..<?n])) = None"
  proof -
    have "\<not> ?P (?f k)" if "k < ?n" for k
    proof -
      have "ident_char (last (c # take k cs))"
      proof -
        have "set (take k cs) \<subseteq> set (takeWhile ident_char cs)"
          using that by (metis less_imp_le_nat set_take_subset_set_take take_length_takeWhile)
        then have "\<forall>x \<in> set (c # take k cs). ident_char x"
          using True by (auto simp: ident_start_char dest: set_takeWhileD)
        then show ?thesis
          using last_in_set [of "c # take k cs"] by blast
      qed
      then show ?thesis
        using shorter_candidates_fail [OF that, of w]
        by (simp add: word_boundary_def ident_char_word)
    qed
    then show ?thesis by (auto simp: find_None_iff)
  qed
  have longest: "?P (?f ?n) = (\<not> next_is_word w (dropWhile ident_char cs))"
    using True last_ident_word [of c w cs]
    by (simp add: word_boundary_def take_length_takeWhile drop_length_takeWhile)
  have "match_ident w pw (c # cs) = find ?P (map ?f (?n # rev [0..<?n]))"
    using guard by (simp add: match_ident_def)
  also have "\<dots> = (if ?P (?f ?n) then Some (?f ?n) else None)"
    using shorter by simp
  finally show ?thesis
    using True longest by (simp add: take_length_takeWhile drop_length_takeWhile)
qed

lemma re_findall_Cons:
  "re_findall w pw (c # cs) =
     (if \<not> pw \<and> ident_start c \<and> \<not> next_is_word w (dropWhile ident_char cs)
      then (c # takeWhile ident_char cs) # re_findall w True (dropWhile ident_char cs)
      else re_findall w (is_word w c) cs)"
  by (simp add: re_findall.simps(2) match_ident_greedy)

lemmas regex_eval =
  extract_variables_def re_findall_Cons ident_start_def ident_char_def next_is_word_def
  is_word_def

subsection \<open>Computing with the reference engine\<close>

lemmas parse_eval =
  parse_boolean_expression_def parse_body_def strip_def is_space_def translate_def
  replace_def formula_libs_def formula_sympify_def symbols_def dict_of_def
  is_keyword_def ascii_simps Let_def ident_start_def ident_char_def

lemmas table_eval =
  generate_truth_table_def enumerate_eq_zip make_row_def val_dict_def dict_of_def
  formula_libs_def formula_subs_bool_def int_of_bool_def str_nat.simps upt_rec

text \<open>The three inputs of the scenarios: \<open>A*B\<close>, \<open>\<not>A+B\<close> and \<open>A^B^C\<close>.\<close>

lemma parse_A_and_B:
  "parse_boolean_expression (formula_libs w) [65, 42, 66] =
     Inr (AndE (VarE (Symbol [65])) (VarE (Symbol [66])),
          [Symbol [65], Symbol [66]], [[65], [66]])"
proof -
  have "extract_variables w [65, 38, 66] = [[65], [66]]"
    by (simp add: regex_eval)
  then show ?thesis
    by (simp add: parse_eval)
qed

lemma table_A_and_B:
  "generate_truth_table (formula_libs w)
     (AndE (VarE (Symbol [65])) (VarE (Symbol [66]))) [Symbol [65], Symbol [66]] =
   Inr [[[48], [48], [48], [48]], [[49], [48], [49], [48]],
        [[50], [49], [48], [48]], [[51], [49], [49], [49]]]"
  by (simp add: table_eval)

lemma parse_not_A_or_B:
  "parse_boolean_expression (formula_libs w) [172, 65, 43, 66] =
     Inr (OrE (NotE (VarE (Symbol [65]))) (VarE (Symbol [66])),
          [Symbol [65], Symbol [66]], [[65], [66]])"
proof -
  have "extract_variables w [126, 65, 124, 66] = [[65], [66]]"
    by (simp add: regex_eval)
  then show ?thesis
    by (simp add: parse_eval)
qed

lemma table_not_A_or_B:
  "generate_truth_table (formula_libs w)
     (OrE (NotE (VarE (Symbol [65]))) (VarE (Symbol [66]))) [Symbol [65], Symbol [66]] =
   Inr [[[48], [48], [48], [49]], [[49], [48], [49], [49]],
        [[50], [49], [48], [48]], [[51], [49], [49], [49]]]"
  by (simp add: table_eval)

lemma parse_A_B_C:
  "parse_boolean_expression (formula_libs w) [65, 94, 66, 94, 67] =
     Inr (AndE (AndE (VarE (Symbol [65])) (VarE (Symbol [66]))) (VarE (Symbol [67])),
          [Symbol [65], Symbol [66], Symbol [67]], [[65], [66], [67]])"
proof -
  have "extract_variables w [65, 38, 66, 38, 67] = [[65], [66], [67]]"
    by (simp add: regex_eval)
  then show ?thesis
    by (simp add: parse_eval)
qed

lemma table_A_B_C:
  "generate_truth_table (formula_libs w)
     (AndE (AndE (VarE (Symbol [65])) (VarE (Symbol [66]))) (VarE (Symbol [67])))
     [Symbol [65], Symbol [66], Symbol [67]] =
   Inr [[[48], [48], [48], [48], [48]], [[49], [48], [48], [49], [48]],
        [[50], [48], [49], [48], [48]], [[51], [48], [49], [49], [48]],
        [[52], [49], [48], [48], [48]], [[53], [49], [48], [49], [48]],
        [[54], [49], [49], [48], [48]], [[55], [49], [49], [49], [49]]]"
  by (simp add: table_eval)

lemma parse_B_or_A:
  "parse_boolean_expression (formula_libs w) [66, 43, 65] =
     Inr (OrE (VarE (Symbol [66])) (VarE (Symbol [65])),
          [Symbol [65], Symbol [66]], [[65], [66]])"
proof -
  have "extract_variables w [66, 124, 65] = [[65], [66]]"
    by (simp add: regex_eval)
  then show ?thesis
    by (simp add: parse_eval)
qed

subsection \<open>The symbol mapping\<close>

lemma translate_map: "translate s = map symbol_map s"
  by (induction s) (auto simp: translate_def replace_def symbol_map_def)

subsection \<open>Decimal strings and the enumeration of assignments\<close>




lemma length_concat_pairs: "length (concat (map (\<lambda>x. [f x, g x]) xs)) = 2 * length xs"
  by (induction xs) auto

lemma concat_pairs_nth:
  "i < 2 * length xs \<Longrightarrow>
   concat (map (\<lambda>x. [f x, g x]) xs) ! i =
     (if i mod 2 = 0 then f (xs ! (i div 2)) else g (xs ! (i div 2)))"
proof (induction xs arbitrary: i)
  case Nil
  then show ?case by simp
next
  case (Cons x xs)
  show ?case
  proof (cases i)
    case 0
    then show ?thesis by simp
  next
    case (Suc j)
    show ?thesis
    proof (cases j)
      case 0
      with Suc show ?thesis by simp
    next
      case (Suc k)
      with \<open>i = Suc j\<close> Cons.prems have "k < 2 * length xs" by simp
      from Cons.IH [OF this] Suc \<open>i = Suc j\<close> show ?thesis by simp
    qed
  qed
qed

lemma product_repeat_bits_Suc:
  "product_repeat [0, 1] (Suc n) =
     concat (map (\<lambda>x. [x @ [0], x @ [1::nat]]) (product_repeat [0, 1] n))"
  by simp

lemma length_product_repeat_bits: "length (product_repeat [0, 1::nat] n) = 2 ^ n"
proof (induction n)
  case 0
  show ?case by simp
next
  case (Suc n)
  have "length (product_repeat [0, 1::nat] (Suc n)) = 2 * length (product_repeat [0, 1::nat] n)"
    unfolding product_repeat_bits_Suc by (rule length_concat_pairs)
  then show ?case using Suc by simp
qed

lemma binary_digits_Suc: "binary_digits (Suc n) i = binary_digits n (i div 2) @ [i mod 2]"
proof -
  have "(i div 2 ^ (Suc n - 1 - k)) mod 2 = ((i div 2) div 2 ^ (n - 1 - k)) mod 2"
    if "k < n" for k
  proof -
    have "Suc n - 1 - k = Suc (n - 1 - k)" using that by simp
    then show ?thesis by (simp add: div_mult2_eq)
  qed
  then have "map (\<lambda>k. (i div 2 ^ (Suc n - 1 - k)) mod 2) [0..<n] =
             map (\<lambda>k. ((i div 2) div 2 ^ (n - 1 - k)) mod 2) [0..<n]"
    by simp
  then show ?thesis
    by (simp add: binary_digits_def)
qed

lemma product_repeat_bits_nth:
  "i < 2 ^ n \<Longrightarrow> product_repeat [0, 1::nat] n ! i = binary_digits n i"
proof (induction n arbitrary: i)
  case 0
  then show ?case by (simp add: binary_digits_def)
next
  case (Suc n)
  have i: "i < 2 * length (product_repeat [0, 1::nat] n)"
    using Suc.prems unfolding length_product_repeat_bits by simp
  have half: "i div 2 < 2 ^ n"
    using Suc.prems by (simp add: less_mult_imp_div_less mult.commute)
  have "product_repeat [0, 1::nat] (Suc n) ! i =
          (product_repeat [0, 1] n ! (i div 2)) @ [i mod 2]"
    unfolding product_repeat_bits_Suc concat_pairs_nth [OF i]
    by (cases "i mod 2 = 0") auto
  then show ?case
    unfolding Suc.IH [OF half] binary_digits_Suc .
qed

lemma length_binary_digits: "length (binary_digits n i) = n"
  by (simp add: binary_digits_def)

lemma binary_digits_nth:
  "k < n \<Longrightarrow> binary_digits n i ! k = (i div 2 ^ (n - 1 - k)) mod 2"
  by (simp add: binary_digits_def)


subsection \<open>Dicts\<close>

lemma fold_update_map_of:
  "fold (\<lambda>(k, v) d. d(k \<mapsto> v)) kvs d0 = d0 ++ map_of (rev kvs)"
proof (induction kvs arbitrary: d0)
  case Nil
  show ?case by simp
next
  case (Cons kv kvs)
  let ?f = "\<lambda>(k, v) d. d(k \<mapsto> v)"
  obtain k v where kv: "kv = (k, v)" by (cases kv)
  have "fold ?f (kv # kvs) d0 = fold ?f kvs (d0(k \<mapsto> v))"
    unfolding kv by (simp only: fold_simps prod.case comp_apply)
  also have "\<dots> = d0(k \<mapsto> v) ++ map_of (rev kvs)"
    by (rule Cons.IH)
  also have "\<dots> = d0 ++ map_of (rev (kv # kvs))"
    unfolding kv by (rule ext) (auto simp: map_add_def split: option.split)
  finally show ?case .
qed

lemma dict_of_map_of: "dict_of kvs = map_of (rev kvs)"
  unfolding dict_of_def fold_update_map_of by simp

lemma val_dict_nth:
  assumes "distinct variables" and "k < length variables"
  shows "val_dict variables values (variables ! k) = Some (values ! k)"
proof -
  let ?kvs = "map (\<lambda>j. (variables ! j, values ! j)) [0..<length variables]"
  have keys: "map fst ?kvs = variables"
    by (simp add: comp_def map_nth)
  have "map fst (rev ?kvs) = rev (map fst ?kvs)"
    by (rule rev_map [symmetric])
  then have "distinct (map fst (rev ?kvs))"
    using assms(1) unfolding keys by simp
  moreover have "(variables ! k, values ! k) \<in> set (rev ?kvs)"
    using assms(2) by auto
  ultimately have "map_of (rev ?kvs) (variables ! k) = Some (values ! k)"
    by (rule map_of_is_SomeI)
  then show ?thesis
    unfolding val_dict_def dict_of_map_of .
qed

subsection \<open>The loop of the enumerator\<close>

lemma table_loop_Inr:
  "table_loop L e vs ivs acc = Inr rows \<Longrightarrow>
   \<exists>new. rows = acc @ new \<and> length new = length ivs \<and>
     (\<forall>k < length ivs. make_row L e vs (fst (ivs ! k)) (snd (ivs ! k)) = Inr (new ! k))"
proof (induction ivs arbitrary: acc)
  case Nil
  then show ?case by simp
next
  case (Cons iv ivs)
  obtain i vals where iv: "iv = (i, vals)" by (cases iv)
  from Cons.prems iv obtain row where
    row: "make_row L e vs i vals = Inr row" and
    rest: "table_loop L e vs ivs (acc @ [row]) = Inr rows"
    by (auto split: sum.splits)
  from Cons.IH [OF rest] obtain new where
    new: "rows = (acc @ [row]) @ new" "length new = length ivs"
      "\<forall>k < length ivs. make_row L e vs (fst (ivs ! k)) (snd (ivs ! k)) = Inr (new ! k)"
    by blast
  have "\<forall>k < length (iv # ivs).
          make_row L e vs (fst ((iv # ivs) ! k)) (snd ((iv # ivs) ! k)) = Inr ((row # new) ! k)"
    using new(3) row iv by (auto simp: nth_Cons split: nat.split)
  then show ?case
    using new(1,2) by (intro exI [of _ "row # new"]) simp
qed


lemma make_row_Inr:
  "make_row L e vs i values = Inr row \<longleftrightarrow>
   (\<exists>b. subs_bool L e (val_dict vs values) = Inr b \<and>
        row = str_nat i # map str_nat values @ [str_nat (int_of_bool b)])"
  by (auto simp: make_row_def split: sum.splits)

lemma enumerate_bits_nth:
  assumes "i < 2 ^ n"
  shows "enumerate 0 (product_repeat [0, 1::nat] n) ! i = (i, binary_digits n i)"
proof -
  have "i < length (product_repeat [0, 1::nat] n)"
    unfolding length_product_repeat_bits by (rule assms)
  then have "enumerate 0 (product_repeat [0, 1::nat] n) ! i
               = (0 + i, product_repeat [0, 1] n ! i)"
    by (rule nth_enumerate_eq)
  then show ?thesis
    unfolding product_repeat_bits_nth [OF assms] by simp
qed

text \<open>The rows of a table that was produced, one by one.\<close>

lemma generate_truth_table_rows:
  assumes "generate_truth_table L e vs = Inr rows"
  shows "length rows = 2 ^ length vs"
    and "i < 2 ^ length vs \<Longrightarrow>
         \<exists>b. subs_bool L e (val_dict vs (binary_digits (length vs) i)) = Inr b \<and>
             rows ! i = str_nat i # map str_nat (binary_digits (length vs) i)
                          @ [str_nat (int_of_bool b)]"
proof -
  let ?ivs = "enumerate 0 (product_repeat [0, 1::nat] (length vs))"
  have len: "length ?ivs = 2 ^ length vs"
    by (simp only: length_enumerate length_product_repeat_bits)
  from assms have "table_loop L e vs ?ivs [] = Inr rows"
    unfolding generate_truth_table_def .
  from table_loop_Inr [OF this] obtain new where
    new: "rows = new" "length new = length ?ivs"
      "\<forall>k < length ?ivs. make_row L e vs (fst (?ivs ! k)) (snd (?ivs ! k)) = Inr (new ! k)"
    by auto
  show "length rows = 2 ^ length vs"
    using new(1,2) len by simp
  show "\<exists>b. subs_bool L e (val_dict vs (binary_digits (length vs) i)) = Inr b \<and>
             rows ! i = str_nat i # map str_nat (binary_digits (length vs) i)
                          @ [str_nat (int_of_bool b)]"
    if "i < 2 ^ length vs"
  proof -
    have "make_row L e vs (fst (?ivs ! i)) (snd (?ivs ! i)) = Inr (rows ! i)"
      using new(1,3) that len by simp
    then have "make_row L e vs i (binary_digits (length vs) i) = Inr (rows ! i)"
      unfolding enumerate_bits_nth [OF that] by simp
    then show ?thesis
      unfolding make_row_Inr .
  qed
qed


subsection \<open>What an accepted input gives\<close>

lemma parse_boolean_expression_Inr:
  assumes "parse_boolean_expression L s = Inr (expr, variables, vars_names)"
  shows "strip s \<noteq> []"
    and "vars_names = extract_variables (re_word L) (translate (strip s))"
    and "vars_names \<noteq> []"
    and "variables = map Symbol vars_names"
    and "sympify L (translate (strip s))
           (dict_of (map (\<lambda>v. (symbol_name v, v)) variables)) = Inr expr"
  using assms
  by (auto simp: parse_boolean_expression_def parse_body_def Let_def symbols_def
        split: if_splits sum.splits)

lemma extract_variables_sorted: "sorted (extract_variables w s)"
  by (simp add: extract_variables_def)

lemma extract_variables_distinct: "distinct (extract_variables w s)"
  by (simp add: extract_variables_def)

lemma extract_variables_set: "set (extract_variables w s) = set (re_findall w False s)"
  by (simp add: extract_variables_def)


subsection \<open>Matches and runs of word characters\<close>

lemma not_next_word_dropWhile:
  "\<not> next_is_word w xs \<Longrightarrow> dropWhile (is_word w) xs = xs"
  by (cases xs) (auto simp: next_is_word_def)

lemma word_run_is_ident_run:
  "\<not> next_is_word w (dropWhile ident_char xs) \<Longrightarrow>
   takeWhile (is_word w) xs = takeWhile ident_char xs \<and>
   dropWhile (is_word w) xs = dropWhile ident_char xs"
proof (induction xs)
  case Nil
  show ?case by simp
next
  case (Cons x xs)
  show ?case
  proof (cases "ident_char x")
    case True
    with Cons show ?thesis by (simp add: ident_char_word)
  next
    case False
    with Cons.prems have "\<not> is_word w x" by (simp add: next_is_word_def)
    with False show ?thesis by simp
  qed
qed

lemma word_run_not_identifier:
  "next_is_word w (dropWhile ident_char xs) \<Longrightarrow>
   \<not> list_all ident_char (takeWhile (is_word w) xs)"
proof (induction xs)
  case Nil
  then show ?case by (simp add: next_is_word_def)
next
  case (Cons x xs)
  show ?case
  proof (cases "ident_char x")
    case True
    with Cons show ?thesis by (simp add: ident_char_word)
  next
    case False
    with Cons.prems have "is_word w x" by (simp add: next_is_word_def)
    with False show ?thesis by simp
  qed
qed

lemma list_all_takeWhile: "list_all P (takeWhile P xs)"
  by (induction xs) auto

lemma re_findall_word_runs:
  "re_findall w pw s =
     filter is_identifier (word_runs w (if pw then dropWhile (is_word w) s else s))"
proof (induction "length s" arbitrary: s pw rule: less_induct)
  case less
  show ?case
  proof (cases s)
    case Nil
    then show ?thesis by simp
  next
    case (Cons c cs)
    have IH: "re_findall w pw' t =
        filter is_identifier (word_runs w (if pw' then dropWhile (is_word w) t else t))"
      if "length t \<le> length cs" for t pw'
      using less [of t pw'] that Cons by simp
    let ?rest = "dropWhile ident_char cs"
    show ?thesis
    proof (cases "\<not> pw \<and> ident_start c \<and> \<not> next_is_word w ?rest")
      case True
      then have c: "is_word w c" by (simp add: ident_start_char ident_char_word)
      from True have run: "takeWhile (is_word w) cs = takeWhile ident_char cs"
                          "dropWhile (is_word w) cs = ?rest"
        using word_run_is_ident_run [of w cs] by simp_all
      have "re_findall w pw s = (c # takeWhile ident_char cs) # re_findall w True ?rest"
        using True Cons by (simp add: re_findall_Cons)
      also have "re_findall w True ?rest = filter is_identifier (word_runs w ?rest)"
        using IH [of ?rest True] True not_next_word_dropWhile [of w ?rest]
        by (simp add: length_dropWhile_le)
      finally show ?thesis
        using True Cons c run
        by (simp add: is_identifier_def list_all_takeWhile)
    next
      case False
      then have step: "re_findall w pw s = re_findall w (is_word w c) cs"
        unfolding Cons re_findall_Cons by (simp only: if_False)
      show ?thesis
      proof (cases "is_word w c")
        case c: True
        have "re_findall w pw s
                = filter is_identifier (word_runs w (dropWhile (is_word w) cs))"
          using step c IH [of cs True] by simp
        moreover have "\<not> is_identifier (c # takeWhile (is_word w) cs)" if "\<not> pw"
          using False that word_run_not_identifier [of w cs]
          by (auto simp: is_identifier_def)
        ultimately show ?thesis
          using Cons c by simp
      next
        case c: False
        have "re_findall w pw s = filter is_identifier (word_runs w cs)"
          using step c IH [of cs False] by simp
        then show ?thesis
          using Cons c by simp
      qed
    qed
  qed
qed

lemma extract_variables_word_runs:
  "extract_variables w s = sort (remdups (filter is_identifier (word_runs w s)))"
  by (simp add: extract_variables_def re_findall_word_runs)

subsection \<open>Stripping\<close>

lemma last_dropWhile: "dropWhile P xs \<noteq> [] \<Longrightarrow> last (dropWhile P xs) = last xs"
  by (induction xs) (auto split: if_splits)

lemma strip_ends:
  assumes "strip s \<noteq> []"
  shows "\<not> is_space (hd (strip s))" and "\<not> is_space (last (strip s))"
proof -
  let ?u = "dropWhile is_space s"
  let ?v = "dropWhile is_space (rev ?u)"
  have v: "?v \<noteq> []" using assms by (simp add: strip_def)
  then have u: "?u \<noteq> []"
    by (metis dropWhile.simps(1) rev.simps(1))
  have "hd (strip s) = last ?v"
    using v by (simp add: strip_def hd_rev)
  also have "\<dots> = last (rev ?u)" by (rule last_dropWhile [OF v])
  also have "\<dots> = hd ?u" using u by (simp add: last_rev)
  finally show "\<not> is_space (hd (strip s))"
    using hd_dropWhile [OF u] by simp
  have "last (strip s) = hd ?v"
    using v by (simp add: strip_def last_rev)
  then show "\<not> is_space (last (strip s))"
    using hd_dropWhile [OF v] by simp
qed

lemma strip_idem: "strip (strip s) = strip s"
proof (cases "strip s = []")
  case True
  have "strip [] = []" by (simp add: strip_def)
  with True show ?thesis by simp
next
  case False
  let ?t = "strip s"
  have "dropWhile is_space ?t = ?t"
    using False strip_ends(1) [OF False] by (cases ?t) auto
  moreover have "dropWhile is_space (rev ?t) = rev ?t"
    using False strip_ends(2) [OF False] by (cases "rev ?t") (auto simp: last_rev [symmetric] hd_rev)
  ultimately show ?thesis
    by (simp add: strip_def)
qed

subsection \<open>Filling the table\<close>

lemma fill_cells_append:
  "fill_cells g (ws1 @ ws2) =
     (case fill_cells g ws1 of Inl e \<Rightarrow> Inl e | Inr g' \<Rightarrow> fill_cells g' ws2)"
proof (induction ws1 arbitrary: g)
  case Nil
  show ?case by simp
next
  case (Cons wr ws1)
  obtain r c t where wr: "wr = (r, c, t)" by (cases wr)
  show ?case
    unfolding wr using Cons.IH by (simp split: sum.split)
qed

text \<open>Writing a list of values into consecutive cells of one row.\<close>

lemma row_write:
  "r < length g \<Longrightarrow> off + length vals \<le> length (g ! r) \<Longrightarrow>
   fill_cells g (map (\<lambda>(j, v). (r, j, v)) (enumerate off vals)) =
     Inr (g[r := take off (g ! r) @ vals @ drop (off + length vals) (g ! r)])"
proof (induction vals arbitrary: g off)
  case Nil
  then show ?case by simp
next
  case (Cons v vals)
  let ?row = "g ! r"
  let ?g' = "g[r := ?row[off := v]]"
  have off: "off < length ?row" using Cons.prems(2) by simp
  have cell: "set_cell g r off v = Inr ?g'"
    using Cons.prems(1) off by (simp add: set_cell_def)
  have r': "r < length ?g'" using Cons.prems(1) by simp
  have row': "?g' ! r = ?row[off := v]" using Cons.prems(1) by simp
  have fits: "Suc off + length vals \<le> length (?g' ! r)"
    using Cons.prems(2) row' by simp
  have front: "take (Suc off) (?row[off := v]) = take off ?row @ [v]"
    using off by (simp add: take_Suc_conv_app_nth)
  have behind: "drop (Suc off + length vals) (?row[off := v])
                = drop (Suc off + length vals) ?row"
    by simp
  have "fill_cells g (map (\<lambda>(j, v). (r, j, v)) (enumerate off (v # vals))) =
          fill_cells ?g' (map (\<lambda>(j, v). (r, j, v)) (enumerate (Suc off) vals))"
    using cell by simp
  also have "\<dots> = Inr (?g'[r := take (Suc off) (?g' ! r) @ vals
                                  @ drop (Suc off + length vals) (?g' ! r)])"
    by (rule Cons.IH [OF r' fits])
  also have "\<dots> = Inr (g[r := take off ?row @ (v # vals)
                                 @ drop (off + length (v # vals)) ?row])"
    unfolding row' front behind by simp
  finally show ?case .
qed

lemma enumerate_shift:
  "map (\<lambda>(j, x). f (j + 1) x) (enumerate n xs) = map (\<lambda>(j, x). f j x) (enumerate (Suc n) xs)"
  by (induction xs arbitrary: n) auto

lemma header_row:
  "fill_cells (add_table (Suc R) (length ns + 2)) (header_writes ns (length ns + 2)) =
     Inr (([8470] # ns @ [ascii ''f'']) # replicate R (replicate (length ns + 2) []))"
proof -
  let ?n = "length ns"
  let ?rest = "replicate R (replicate (?n + 2) ([]::pystr))"
  let ?g0 = "replicate (?n + 2) ([]::pystr) # ?rest"
  let ?g1 = "([8470] # replicate (Suc ?n) ([]::pystr)) # ?rest"
  let ?g2 = "([8470] # ns @ [[]]) # ?rest"
  let ?g3 = "([8470] # ns @ [ascii ''f'']) # ?rest"
  let ?w = "\<lambda>off vals. map (\<lambda>(j, v). (0::nat, j, v)) (enumerate off vals)"
  have writes: "header_writes ns (?n + 2) =
                  ?w 0 [[8470]] @ ?w 1 ns @ ?w (Suc ?n) [ascii ''f'']"
    using enumerate_shift [of "\<lambda>j x. (0::nat, j, x)" 0 ns]
    by (simp add: header_writes_def)
  have s1: "fill_cells ?g0 (?w 0 [[8470]]) = Inr ?g1"
    using row_write [of 0 ?g0 0 "[[8470]]"] by simp
  have "drop ?n (([]::pystr) # replicate ?n []) = replicate (Suc ?n - ?n) []"
    unfolding replicate_Suc [symmetric] by (rule drop_replicate)
  then have d: "drop ?n (([]::pystr) # replicate ?n []) = [[]]"
    by simp
  have s2: "fill_cells ?g1 (?w 1 ns) = Inr ?g2"
    using row_write [of 0 ?g1 1 ns] d by simp
  have s3: "fill_cells ?g2 (?w (Suc ?n) [ascii ''f'']) = Inr ?g3"
    using row_write [of 0 ?g2 "Suc ?n" "[ascii ''f'']"] by simp
  have "add_table (Suc R) (?n + 2) = ?g0"
    by (simp add: add_table_def)
  then show ?thesis
    unfolding writes by (simp only: fill_cells_append s1 s2 s3 sum.case)
qed

lemma data_rows:
  "\<forall>row \<in> set rows. length row = cols \<Longrightarrow> length pre = Suc k \<Longrightarrow>
   fill_cells (pre @ replicate (length rows) (replicate cols []))
     (concat (map (\<lambda>(i, row). map (\<lambda>(j, val). (i + 1, j, val)) (enumerate 0 row))
                  (enumerate k rows))) =
     Inr (pre @ rows)"
proof (induction rows arbitrary: pre k)
  case Nil
  show ?case by simp
next
  case (Cons row rows)
  let ?blank = "replicate cols ([]::pystr)"
  let ?g = "pre @ ?blank # replicate (length rows) ?blank"
  have len: "length row = cols" using Cons.prems(1) by simp
  have "fill_cells ?g (map (\<lambda>(j, v). (Suc k, j, v)) (enumerate 0 row)) =
          Inr (?g[Suc k := take 0 (?g ! Suc k) @ row @ drop (0 + length row) (?g ! Suc k)])"
    by (rule row_write) (simp_all add: Cons.prems(2) [symmetric] len)
  also have "?g ! Suc k = ?blank"
    by (simp add: Cons.prems(2) [symmetric])
  also have "?g[Suc k := take 0 ?blank @ row @ drop (0 + length row) ?blank]
               = (pre @ [row]) @ replicate (length rows) ?blank"
    by (simp add: Cons.prems(2) [symmetric] len)
  finally have first:
    "fill_cells ?g (map (\<lambda>(j, v). (Suc k, j, v)) (enumerate 0 row)) =
       Inr ((pre @ [row]) @ replicate (length rows) ?blank)" .
  have rest: "fill_cells ((pre @ [row]) @ replicate (length rows) ?blank)
     (concat (map (\<lambda>(i, row). map (\<lambda>(j, val). (i + 1, j, val)) (enumerate 0 row))
                  (enumerate (Suc k) rows))) = Inr ((pre @ [row]) @ rows)"
    by (rule Cons.IH) (use Cons.prems in simp_all)
  show ?case
    using first rest by (simp add: fill_cells_append)
qed

lemma create_docx_table_saved:
  assumes "\<forall>row \<in> set rows_data. length row = length vars_names + 2"
  shows "create_docx_table None rows_data vars_names user_expression output_file =
     ([Save output_file
         \<lparr>caption = ascii ''Boolean function: '' @ user_expression,
          cells = ([8470] # vars_names @ [ascii ''f'']) # rows_data\<rparr>,
       Print (saved_message output_file)], None)"
    and "create_docx_table (Some e) rows_data vars_names user_expression output_file =
     ([], Some e)"
proof -
  let ?cols = "length vars_names + 2"
  let ?hdr = "[8470] # vars_names @ [ascii ''f'']"
  have "fill_cells (add_table (length rows_data + 1) ?cols)
          (header_writes vars_names ?cols @ data_writes rows_data) =
        fill_cells ([?hdr] @ replicate (length rows_data) (replicate ?cols []))
          (data_writes rows_data)"
    using header_row [of "length rows_data" vars_names]
    by (simp add: fill_cells_append)
  also have "\<dots> = Inr ([?hdr] @ rows_data)"
    unfolding data_writes_def by (rule data_rows [OF assms]) simp
  finally have filled:
    "fill_cells (add_table (length rows_data + 1) ?cols)
       (header_writes vars_names ?cols @ data_writes rows_data) = Inr (?hdr # rows_data)"
    by simp
  show "create_docx_table None rows_data vars_names user_expression output_file =
     ([Save output_file
         \<lparr>caption = ascii ''Boolean function: '' @ user_expression,
          cells = ?hdr # rows_data\<rparr>,
       Print (saved_message output_file)], None)"
    unfolding create_docx_table_def Let_def filled by simp
  show "create_docx_table (Some e) rows_data vars_names user_expression output_file =
     ([], Some e)"
    unfolding create_docx_table_def Let_def filled by simp
qed

subsection \<open>Runs of the main program\<close>

lemma prepend_prepend: "prepend a (prepend b r) = prepend (a @ b) r"
  by (simp add: prepend_def)

lemma saved_docs_append: "saved_docs (a @ b) = saved_docs a @ saved_docs b"
  by (induction a rule: saved_docs.induct) auto

lemma parse_boolean_expression_Inl:
  "parse_boolean_expression L s = Inl err \<Longrightarrow>
   err = ValueError empty_message \<and> strip s = []
   \<or> (\<exists>reason. err = ValueError (invalid_message (strip s) reason) \<and> strip s \<noteq> [])"
  by (auto simp: parse_boolean_expression_def Let_def split: if_splits sum.splits)

text \<open>What the input loop does with one line, and what it has done when it ends with an
  accepted input.\<close>

lemma input_loop_accepts:
  assumes "strip l \<noteq> []"
      and "parse_boolean_expression L (strip l) = Inr (expr, variables, vars_names)"
  shows "input_loop L (l # rest) = ([Prompt], Inr (strip l, expr, variables, vars_names))"
  using assms by (simp add: Let_def)

lemma input_loop_rejects_empty:
  assumes "strip l = []"
  shows "input_loop L (l # rest) =
           prepend [Prompt, Print empty_retry_message] (input_loop L rest)"
  using assms by (simp add: Let_def)

lemma input_loop_rejects_invalid:
  assumes "strip l \<noteq> []"
      and "parse_boolean_expression L (strip l) = Inl err"
  shows "input_loop L (l # rest) =
           prepend [Prompt, Print (retry_message err)] (input_loop L rest)"
proof -
  from parse_boolean_expression_Inl [OF assms(2)] obtain m where "err = ValueError m"
    by auto
  with assms show ?thesis by (simp add: Let_def)
qed

lemma prepend_eq:
  "prepend a r = (evs, x) \<longleftrightarrow> (\<exists>evs'. r = (evs', x) \<and> evs = a @ evs')"
  by (cases r) (auto simp: prepend_def)

lemma input_loop_Inr:
  "input_loop L lines = (evs, Inr (user_input, expr, variables, vars_names)) \<Longrightarrow>
   saved_docs evs = [] \<and>
   (\<exists>pre line post. lines = pre @ line # post \<and> list_all (\<lambda>l. \<not> accepted L l) pre \<and>
      user_input = strip line \<and> strip line \<noteq> [] \<and>
      parse_boolean_expression L (strip line) = Inr (expr, variables, vars_names))"
proof (induction lines arbitrary: evs)
  case Nil
  then show ?case by simp
next
  case (Cons l rest)
  have later: ?case
    if no: "\<not> accepted L l"
      and step: "input_loop L (l # rest) = prepend [Prompt, Print msg] (input_loop L rest)"
    for msg
  proof -
    from Cons.prems obtain evs' where
      loop: "input_loop L rest = (evs', Inr (user_input, expr, variables, vars_names))"
      and evs: "evs = [Prompt, Print msg] @ evs'"
      unfolding step prepend_eq by blast
    from Cons.IH [OF loop] obtain pre line post where
      found: "saved_docs evs' = []" "rest = pre @ line # post"
        "list_all (\<lambda>l. \<not> accepted L l) pre" "user_input = strip line" "strip line \<noteq> []"
        "parse_boolean_expression L (strip line) = Inr (expr, variables, vars_names)"
      by blast
    have a: "l # rest = (l # pre) @ line # post"
      using found(2) by simp
    have b: "list_all (\<lambda>l. \<not> accepted L l) (l # pre)"
      using found(3) no by simp
    have c: "saved_docs evs = []"
      unfolding evs saved_docs_append using found(1) by simp
    from a b c found(4,5,6) show ?thesis by blast
  qed
  show ?case
  proof (cases "strip l = []")
    case True
    then have "\<not> accepted L l" by (simp add: accepted_def)
    then show ?thesis
      using input_loop_rejects_empty [OF True] by (rule later)
  next
    case False
    show ?thesis
    proof (cases "parse_boolean_expression L (strip l)")
      case (Inl err)
      then have "\<not> accepted L l" by (simp add: accepted_def)
      then show ?thesis
        using input_loop_rejects_invalid [OF False Inl] by (rule later)
    next
      case (Inr r)
      obtain e vs ns where r: "r = (e, vs, ns)" by (cases r)
      from Cons.prems have
        eqs: "evs = [Prompt]" "user_input = strip l" "e = expr" "vs = variables"
          "ns = vars_names"
        unfolding input_loop_accepts [OF False Inr [unfolded r]] by simp_all
      have a: "l # rest = [] @ l # rest" by simp
      have b: "list_all (\<lambda>l. \<not> accepted L l) []" by simp
      have c: "saved_docs evs = []" unfolding eqs(1) by simp
      have d: "parse_boolean_expression L (strip l) = Inr (expr, variables, vars_names)"
        using Inr r eqs by simp
      from a b c d eqs(2) False show ?thesis by blast
    qed
  qed
qed

lemma generate_truth_table_row_lengths:
  assumes "generate_truth_table L e vs = Inr rows"
  shows "\<forall>row \<in> set rows. length row = length vs + 2"
proof
  fix row assume "row \<in> set rows"
  then obtain i where i: "i < length rows" "row = rows ! i"
    by (auto simp: in_set_conv_nth)
  then have "i < 2 ^ length vs"
    using generate_truth_table_rows(1) [OF assms] by simp
  from generate_truth_table_rows(2) [OF assms this] i(2)
  show "length row = length vs + 2"
    by (auto simp: length_binary_digits)
qed

text \<open>A run that ends normally: what it was given and what it has saved.\<close>

lemma main_normal:
  assumes "main L wd = (evs, None)"
  shows "\<exists>pre line post expr variables vars_names rows_data.
           stdin wd = pre @ line # post \<and> list_all (\<lambda>l. \<not> accepted L l) pre \<and>
           strip line \<noteq> [] \<and>
           parse_boolean_expression L (strip line) = Inr (expr, variables, vars_names) \<and>
           generate_truth_table L expr variables = Inr rows_data \<and>
           saved_docs evs =
             [\<lparr>caption = ascii ''Boolean function: '' @ strip line,
               cells = ([8470] # vars_names @ [ascii ''f'']) # rows_data\<rparr>]"
proof -
  obtain evs0 res where loop: "input_loop L (stdin wd) = (evs0, res)"
    by (cases "input_loop L (stdin wd)")
  from assms loop obtain user_input expr variables vars_names where
    res: "res = Inr (user_input, expr, variables, vars_names)"
    by (cases res) (auto simp: main_def)
  from assms loop res obtain rows_data where
    gen: "generate_truth_table L expr variables = Inr rows_data"
    by (cases "generate_truth_table L expr variables") (auto simp: main_def)
  from input_loop_Inr [OF loop [unfolded res]] obtain pre line post where
    line: "saved_docs evs0 = []" "stdin wd = pre @ line # post" "user_input = strip line"
      "strip line \<noteq> []"
      "parse_boolean_expression L (strip line) = Inr (expr, variables, vars_names)"
      "list_all (\<lambda>l. \<not> accepted L l) pre"
    by blast
  have "variables = map Symbol vars_names"
    by (rule parse_boolean_expression_Inr(4) [OF line(5)])
  then have lens: "\<forall>row \<in> set rows_data. length row = length vars_names + 2"
    using generate_truth_table_row_lengths [OF gen] by simp
  have run: "main L wd =
      prepend evs0 (create_docx_table (save_error wd) rows_data vars_names user_input
                      output_file_default)"
    using loop res gen by (simp add: main_def)
  have ok: "save_error wd = None"
  proof (cases "save_error wd")
    case None
    then show ?thesis .
  next
    case (Some e)
    with run assms create_docx_table_saved(2) [OF lens] show ?thesis
      by (simp add: prepend_def)
  qed
  from run assms have "evs = evs0 @
      [Save output_file_default
         \<lparr>caption = ascii ''Boolean function: '' @ user_input,
          cells = ([8470] # vars_names @ [ascii ''f'']) # rows_data\<rparr>,
       Print (saved_message output_file_default)]"
    unfolding ok create_docx_table_saved(1) [OF lens] by (simp add: prepend_def)
  then have "saved_docs evs =
      [\<lparr>caption = ascii ''Boolean function: '' @ strip line,
        cells = ([8470] # vars_names @ [ascii ''f'']) # rows_data\<rparr>]"
    using line(1,3) by (simp add: saved_docs_append)
  with line gen show ?thesis by blast
qed

lemma main_prepend:
  assumes "input_loop L (line # rest) = prepend a (input_loop L rest)"
  shows "main L \<lparr>stdin = line # rest, save_error = se\<rparr> =
           prepend a (main L \<lparr>stdin = rest, save_error = se\<rparr>)"
proof -
  obtain evs res where loop: "input_loop L rest = (evs, res)"
    by (cases "input_loop L rest")
  show ?thesis
  proof (cases res)
    case (Inl e)
    with assms loop show ?thesis
      by (simp add: main_def prepend_def)
  next
    case (Inr r)
    obtain user_input expr variables vars_names where
      r: "r = (user_input, expr, variables, vars_names)"
      by (cases r)
    show ?thesis
    proof (cases "generate_truth_table L expr variables")
      case (Inl e)
      with assms loop Inr r show ?thesis
        by (simp add: main_def prepend_def)
    next
      case rows: (Inr rows_data)
      with assms loop Inr r show ?thesis
        by (simp add: main_def prepend_def)
    qed
  qed
qed

lemma strip_A_and_B: "strip [65, 42, 66] = [65, 42, 66]"
  by (simp add: strip_def is_space_def)

lemma main_A_and_B:
  "main (formula_libs w) \<lparr>stdin = [[65, 42, 66]], save_error = None\<rparr> =
     ([Prompt,
       Save output_file_default
         \<lparr>caption = ascii ''Boolean function: '' @ [65, 42, 66],
          cells = [[[8470], [65], [66], [102]],
                   [[48], [48], [48], [48]], [[49], [48], [49], [48]],
                   [[50], [49], [48], [48]], [[51], [49], [49], [49]]]\<rparr>,
       Print (saved_message output_file_default)], None)"
proof -
  have loop: "input_loop (formula_libs w) [[65, 42, 66]] =
      ([Prompt], Inr ([65, 42, 66], AndE (VarE (Symbol [65])) (VarE (Symbol [66])),
                      [Symbol [65], Symbol [66]], [[65], [66]]))"
    by (simp add: strip_A_and_B parse_A_and_B Let_def)
  have doc: "create_docx_table None
       [[[48], [48], [48], [48]], [[49], [48], [49], [48]],
        [[50], [49], [48], [48]], [[51], [49], [49], [49]]]
       [[65], [66]] [65, 42, 66] output_file_default =
     ([Save output_file_default
         \<lparr>caption = ascii ''Boolean function: '' @ [65, 42, 66],
          cells = ([8470] # [[65], [66]] @ [ascii ''f'']) #
                  [[[48], [48], [48], [48]], [[49], [48], [49], [48]],
                   [[50], [49], [48], [48]], [[51], [49], [49], [49]]]\<rparr>,
       Print (saved_message output_file_default)], None)"
    by (rule create_docx_table_saved(1)) simp
  show ?thesis
    unfolding main_def
    by (simp add: loop table_A_and_B doc prepend_def ascii_simps del: input_loop.simps)
qed

lemma parse_unbalanced:
  "parse_boolean_expression (formula_libs w) [40, 65] =
     Inl (ValueError (invalid_message [40, 65] (exn_str library_failure)))"
proof -
  have "extract_variables w [40, 65] = [[65]]"
    by (simp add: regex_eval)
  then show ?thesis
    by (simp add: parse_eval)
qed

lemma main_A_space:
  "main (formula_libs w) \<lparr>stdin = [[65, 32]], save_error = None\<rparr> =
     ([Prompt,
       Save output_file_default
         \<lparr>caption = ascii ''Boolean function: '' @ [65],
          cells = [[[8470], [65], [102]], [[48], [48], [48]], [[49], [49], [49]]]\<rparr>,
       Print (saved_message output_file_default)], None)"
proof -
  have s: "strip [65, 32] = [65]" "strip [65] = [65]"
    by (simp_all add: strip_def is_space_def)
  have "extract_variables w [65] = [[65]]"
    by (simp add: regex_eval)
  then have p: "parse_boolean_expression (formula_libs w) [65] =
      Inr (VarE (Symbol [65]), [Symbol [65]], [[65]])"
    by (simp add: parse_eval)
  have loop: "input_loop (formula_libs w) [[65, 32]] =
      ([Prompt], Inr ([65], VarE (Symbol [65]), [Symbol [65]], [[65]]))"
    by (simp add: s p Let_def)
  have g: "generate_truth_table (formula_libs w) (VarE (Symbol [65])) [Symbol [65]] =
      Inr [[[48], [48], [48]], [[49], [49], [49]]]"
    by (simp add: table_eval)
  have doc: "create_docx_table None [[[48], [48], [48]], [[49], [49], [49]]]
       [[65]] [65] output_file_default =
     ([Save output_file_default
         \<lparr>caption = ascii ''Boolean function: '' @ [65],
          cells = ([8470] # [[65]] @ [ascii ''f'']) #
                  [[[48], [48], [48]], [[49], [49], [49]]]\<rparr>,
       Print (saved_message output_file_default)], None)"
    by (rule create_docx_table_saved(1)) simp
  show ?thesis
    unfolding main_def
    by (simp add: loop g doc prepend_def ascii_simps del: input_loop.simps)
qed

section \<open>The scenarios\<close>

text \<open>
  C5. End to end, with the reference engine: the input \<open>A*B\<close> yields the variables
  \<open>[A, B]\<close> and the rows \<open>(0,0)\<rightarrow>0\<close>, \<open>(0,1)\<rightarrow>0\<close>, \<open>(1,0)\<rightarrow>0\<close>, \<open>(1,1)\<rightarrow>1\<close>; the input
  \<open>\<not>A+B\<close> (the not sign is code point 172) yields the variables \<open>[A, B]\<close> and the rows
  \<open>(0,0)\<rightarrow>1\<close>, \<open>(0,1)\<rightarrow>1\<close>, \<open>(1,0)\<rightarrow>0\<close>, \<open>(1,1)\<rightarrow>1\<close>. Each row is its index, the two
  values and the function value, as strings.
\<close>

theorem scenarios_and_implication:
  "parse_and_generate (formula_libs w) (ascii ''A*B'') =
     Inr ([ascii ''A'', ascii ''B''],
          [map ascii [''0'', ''0'', ''0'', ''0''],
           map ascii [''1'', ''0'', ''1'', ''0''],
           map ascii [''2'', ''1'', ''0'', ''0''],
           map ascii [''3'', ''1'', ''1'', ''1'']])
   \<and> parse_and_generate (formula_libs w) (172 # ascii ''A+B'') =
     Inr ([ascii ''A'', ascii ''B''],
          [map ascii [''0'', ''0'', ''0'', ''1''],
           map ascii [''1'', ''0'', ''1'', ''1''],
           map ascii [''2'', ''1'', ''0'', ''0''],
           map ascii [''3'', ''1'', ''1'', ''1'']])"
  by (simp add: parse_and_generate_def ascii_simps parse_A_and_B table_A_and_B
        parse_not_A_or_B table_not_A_or_B)

text \<open>
  C4. Translation substitutes symbol by symbol before the engine parses: every not
  sign becomes \<open>~\<close>, every \<open>*\<close> and every \<open>^\<close> becomes \<open>&\<close>, every \<open>+\<close> and every
  logical-or sign becomes \<open>|\<close>, every other code point stays, and an accepted
  expression is what the engine made of the substituted string. In particular
  \<open>A^B^C\<close> is parsed as the conjunction of the three variables, and its table has 8
  rows whose function value is 1 only in the last one, the assignment \<open>(1,1,1)\<close>.
\<close>

theorem translation_is_lexical:
  "translate s = map symbol_map s
   \<and> (parse_boolean_expression L s = Inr (expr, variables, vars_names) \<longrightarrow>
        sympify L (map symbol_map (strip s))
          (dict_of (map (\<lambda>v. (symbol_name v, v)) variables)) = Inr expr)
   \<and> parse_boolean_expression (formula_libs w) (ascii ''A^B^C'') =
       Inr (AndE (AndE (VarE (Symbol (ascii ''A''))) (VarE (Symbol (ascii ''B''))))
              (VarE (Symbol (ascii ''C''))),
            [Symbol (ascii ''A''), Symbol (ascii ''B''), Symbol (ascii ''C'')],
            [ascii ''A'', ascii ''B'', ascii ''C''])
   \<and> parse_and_generate (formula_libs w) (ascii ''A^B^C'') =
       Inr ([ascii ''A'', ascii ''B'', ascii ''C''],
            [map ascii [''0'', ''0'', ''0'', ''0'', ''0''],
             map ascii [''1'', ''0'', ''0'', ''1'', ''0''],
             map ascii [''2'', ''0'', ''1'', ''0'', ''0''],
             map ascii [''3'', ''0'', ''1'', ''1'', ''0''],
             map ascii [''4'', ''1'', ''0'', ''0'', ''0''],
             map ascii [''5'', ''1'', ''0'', ''1'', ''0''],
             map ascii [''6'', ''1'', ''1'', ''0'', ''0''],
             map ascii [''7'', ''1'', ''1'', ''1'', ''1'']])"
proof -
  have "sympify L (map symbol_map (strip s))
          (dict_of (map (\<lambda>v. (symbol_name v, v)) variables)) = Inr expr"
    if "parse_boolean_expression L s = Inr (expr, variables, vars_names)"
    using that
    by (auto simp: parse_boolean_expression_def parse_body_def Let_def translate_map
          split: if_splits sum.splits)
  moreover have "parse_boolean_expression (formula_libs w) (ascii ''A^B^C'') =
       Inr (AndE (AndE (VarE (Symbol (ascii ''A''))) (VarE (Symbol (ascii ''B''))))
              (VarE (Symbol (ascii ''C''))),
            [Symbol (ascii ''A''), Symbol (ascii ''B''), Symbol (ascii ''C'')],
            [ascii ''A'', ascii ''B'', ascii ''C''])"
    by (simp add: ascii_simps parse_A_B_C)
  moreover have "parse_and_generate (formula_libs w) (ascii ''A^B^C'') =
       Inr ([ascii ''A'', ascii ''B'', ascii ''C''],
            [map ascii [''0'', ''0'', ''0'', ''0'', ''0''],
             map ascii [''1'', ''0'', ''0'', ''1'', ''0''],
             map ascii [''2'', ''0'', ''1'', ''0'', ''0''],
             map ascii [''3'', ''0'', ''1'', ''1'', ''0''],
             map ascii [''4'', ''1'', ''0'', ''0'', ''0''],
             map ascii [''5'', ''1'', ''0'', ''1'', ''0''],
             map ascii [''6'', ''1'', ''1'', ''0'', ''0''],
             map ascii [''7'', ''1'', ''1'', ''1'', ''1'']])"
    by (simp add: parse_and_generate_def ascii_simps parse_A_B_C table_A_B_C)
  ultimately show ?thesis
    by (simp add: translate_map)
qed

theorem translation_is_lexical_witness:
  "parse_boolean_expression (formula_libs (\<lambda>c. False)) (ascii ''A^B^C'') =
     Inr (AndE (AndE (VarE (Symbol [65])) (VarE (Symbol [66]))) (VarE (Symbol [67])),
          [Symbol [65], Symbol [66], Symbol [67]], [[65], [66], [67]])
   \<and> sympify (formula_libs (\<lambda>c. False)) (map symbol_map (strip (ascii ''A^B^C'')))
       (dict_of (map (\<lambda>v. (symbol_name v, v)) [Symbol [65], Symbol [66], Symbol [67]])) =
     Inr (AndE (AndE (VarE (Symbol [65])) (VarE (Symbol [66]))) (VarE (Symbol [67])))"
proof -
  have p: "parse_boolean_expression (formula_libs (\<lambda>c. False)) (ascii ''A^B^C'') =
     Inr (AndE (AndE (VarE (Symbol [65])) (VarE (Symbol [66]))) (VarE (Symbol [67])),
          [Symbol [65], Symbol [66], Symbol [67]], [[65], [66], [67]])"
    by (simp add: ascii_simps parse_A_B_C)
  show ?thesis
    using p translation_is_lexical
      [of "ascii ''A^B^C''" "formula_libs (\<lambda>c. False)"
          "AndE (AndE (VarE (Symbol [65])) (VarE (Symbol [66]))) (VarE (Symbol [67]))"
          "[Symbol [65], Symbol [66], Symbol [67]]" "[[65], [66], [67]]" "\<lambda>c. False"]
    by blast
qed

section \<open>The enumerator\<close>



text \<open>
  C2. For every accepted input, with \<open>N\<close> variables, and every row index
  \<open>i < 2 ^ N\<close>: the variable names are sorted and without duplicates, the variables
  are their symbols in that order, the assignment values of row \<open>i\<close> are the binary
  digits of \<open>i\<close> in \<open>N\<close> bits, most significant first (digit \<open>k\<close> from the left is
  \<open>(i div 2 ^ (N - 1 - k)) mod 2\<close>), digit \<open>k\<close> is the value that the expression is
  evaluated with for the \<open>k\<close>-th variable, and the last entry of the row is the
  result of that evaluation.
\<close>

theorem assignment_order:
  assumes "parse_boolean_expression L s = Inr (expr, variables, vars_names)"
      and "generate_truth_table L expr variables = Inr rows"
      and "i < 2 ^ length variables"
  shows "sorted vars_names \<and> distinct vars_names \<and> variables = map Symbol vars_names
       \<and> take (length variables) (tl (rows ! i))
           = map str_nat (binary_digits (length variables) i)
       \<and> (\<forall>k < length variables.
             binary_digits (length variables) i ! k
               = (i div 2 ^ (length variables - 1 - k)) mod 2
           \<and> val_dict variables (binary_digits (length variables) i) (variables ! k)
               = Some (binary_digits (length variables) i ! k))
       \<and> (\<exists>b. subs_bool L expr (val_dict variables (binary_digits (length variables) i))
                 = Inr b
              \<and> last (rows ! i) = str_nat (int_of_bool b))"
proof -
  note p = parse_boolean_expression_Inr [OF assms(1)]
  have names: "sorted vars_names" "distinct vars_names"
    unfolding p(2) by (rule extract_variables_sorted, rule extract_variables_distinct)
  have vars: "variables = map Symbol vars_names" by (rule p(4))
  have dist: "distinct variables"
    unfolding vars using names(2) by (simp add: distinct_map inj_on_def)
  from generate_truth_table_rows(2) [OF assms(2,3)] obtain b where
    b: "subs_bool L expr (val_dict variables (binary_digits (length variables) i)) = Inr b"
    and row: "rows ! i = str_nat i # map str_nat (binary_digits (length variables) i)
                @ [str_nat (int_of_bool b)]"
    by blast
  have middle: "take (length variables) (tl (rows ! i))
                  = map str_nat (binary_digits (length variables) i)"
    unfolding row by (simp add: length_binary_digits)
  have last: "last (rows ! i) = str_nat (int_of_bool b)"
    unfolding row by simp
  have bound: "binary_digits (length variables) i ! k
                 = (i div 2 ^ (length variables - 1 - k)) mod 2
             \<and> val_dict variables (binary_digits (length variables) i) (variables ! k)
                 = Some (binary_digits (length variables) i ! k)"
    if "k < length variables" for k
    using that binary_digits_nth [OF that] val_dict_nth [OF dist that] by simp
  show ?thesis
    using names vars middle bound b last by blast
qed

theorem assignment_order_witness:
  "parse_boolean_expression (formula_libs (\<lambda>c. False)) (ascii ''A*B'') =
     Inr (AndE (VarE (Symbol [65])) (VarE (Symbol [66])),
          [Symbol [65], Symbol [66]], [[65], [66]])
   \<and> generate_truth_table (formula_libs (\<lambda>c. False))
       (AndE (VarE (Symbol [65])) (VarE (Symbol [66]))) [Symbol [65], Symbol [66]] =
     Inr [[[48], [48], [48], [48]], [[49], [48], [49], [48]],
          [[50], [49], [48], [48]], [[51], [49], [49], [49]]]
   \<and> (2::nat) < 2 ^ length [Symbol [65], Symbol [66]]
   \<and> sorted [[65], [66::nat]]
   \<and> take (length [Symbol [65], Symbol [66]]) (tl ([[[48], [48], [48], [48]], [[49], [48], [49], [48]],
          [[50], [49], [48], [48]], [[51], [49], [49], [49]]] ! 2))
       = map str_nat (binary_digits (length [Symbol [65], Symbol [66]]) 2)
   \<and> binary_digits (length [Symbol [65], Symbol [66]]) 2 ! 0
       = (2 div 2 ^ (length [Symbol [65], Symbol [66]] - 1 - 0)) mod 2
   \<and> val_dict [Symbol [65], Symbol [66]]
         (binary_digits (length [Symbol [65], Symbol [66]]) 2)
         ([Symbol [65], Symbol [66]] ! 0)
       = Some (binary_digits (length [Symbol [65], Symbol [66]]) 2 ! 0)"
proof -
  have p: "parse_boolean_expression (formula_libs (\<lambda>c. False)) (ascii ''A*B'') =
     Inr (AndE (VarE (Symbol [65])) (VarE (Symbol [66])),
          [Symbol [65], Symbol [66]], [[65], [66]])"
    by (simp add: ascii_simps parse_A_and_B)
  note g = table_A_and_B [of "\<lambda>c. False"]
  have i: "(2::nat) < 2 ^ length [Symbol [65], Symbol [66]]"
    by simp
  have k: "(0::nat) < length [Symbol [65], Symbol [66]]"
    by simp
  from assignment_order [OF p g i] k p g i show ?thesis
    by blast
qed



section \<open>The translator\<close>

text \<open>
  C3, as the code has it. For every string, variable extraction returns, sorted by
  code point and without duplicates, exactly the maximal runs of word characters
  that as a whole match \<open>[A-Za-z_][A-Za-z0-9_]*\<close>; the result depends only on the
  set of these runs, not on the order in which they occur; it is the list of names
  that an accepted input is returned with; and the input \<open>B+A\<close> yields \<open>[A, B]\<close>.
  A piece of the string that matches the pattern but stands directly after a digit,
  or directly beside a word character outside ASCII, is part of a longer run of word
  characters that does not match, and is not extracted. The counterexample is the
  input \<open>1A\<close>: its maximal piece matching the pattern is \<open>A\<close>, and the extraction
  yields no name at all.
\<close>

theorem variable_extraction:
  "extract_variables w s =
     sorted_list_of_set (set (filter is_identifier (word_runs w s)))
   \<and> sorted (extract_variables w s)
   \<and> distinct (extract_variables w s)
   \<and> (parse_boolean_expression L expr_input = Inr (expr, variables, vars_names) \<longrightarrow>
        vars_names = extract_variables (re_word L) (translate (strip expr_input)))
   \<and> extract_variables w (translate (ascii ''B+A'')) = [ascii ''A'', ascii ''B'']"
proof -
  have "extract_variables w s =
          sorted_list_of_set (set (filter is_identifier (word_runs w s)))"
    unfolding extract_variables_word_runs sorted_list_of_set_sort_remdups ..
  moreover have "extract_variables w (translate (ascii ''B+A'')) = [ascii ''A'', ascii ''B'']"
    by (simp add: ascii_simps translate_def replace_def regex_eval)
  ultimately show ?thesis
    using extract_variables_sorted [of w s] extract_variables_distinct [of w s]
      parse_boolean_expression_Inr(2) [of L expr_input expr variables vars_names]
    by blast
qed

theorem variable_extraction_witness:
  "parse_boolean_expression (formula_libs (\<lambda>c. False)) (ascii ''B+A'') =
     Inr (OrE (VarE (Symbol [66])) (VarE (Symbol [65])),
          [Symbol [65], Symbol [66]], [[65], [66]])
   \<and> [[65], [66]] =
       extract_variables (re_word (formula_libs (\<lambda>c. False)))
         (translate (strip (ascii ''B+A'')))"
proof -
  have p: "parse_boolean_expression (formula_libs (\<lambda>c. False)) (ascii ''B+A'') =
     Inr (OrE (VarE (Symbol [66])) (VarE (Symbol [65])),
          [Symbol [65], Symbol [66]], [[65], [66]])"
    by (simp add: ascii_simps parse_B_or_A)
  from variable_extraction
         [of "\<lambda>c. False" "[]" "formula_libs (\<lambda>c. False)" "ascii ''B+A''"
             "OrE (VarE (Symbol [66])) (VarE (Symbol [65]))"
             "[Symbol [65], Symbol [66]]" "[[65], [66]]"] p
  show ?thesis by blast
qed

theorem variable_extraction_counterexample:
  "maximal_tokens (translate (ascii ''1A'')) = [ascii ''A'']
   \<and> extract_variables (\<lambda>c. False) (translate (ascii ''1A'')) = []"
  by (simp add: ascii_simps translate_def replace_def regex_eval)

text \<open>
  C6, as the code has it. For every input that is not empty after stripping and in
  which the extraction finds no variable, the translator fails with the same kind of
  error as for a malformed expression: a \<open>ValueError\<close> whose message is
  \<open>Invalid Boolean expression: '\<dots>'.\<close> with the stripped input, followed on the next
  line by \<open>Error: No valid variables found in expression (expected names like x1,
  x_2, F).\<close>; the input loop prints it and asks again. The no-variables text is the
  reason inside the invalid-expression message, since it is raised inside the \<open>try\<close>
  block whose handler wraps every exception. The counterexample is the input \<open>()\<close>.
\<close>

theorem no_variables_error:
  assumes "strip s \<noteq> []"
      and "extract_variables (re_word L) (translate (strip s)) = []"
  shows "parse_boolean_expression L s =
           Inl (ValueError (invalid_message (strip s) no_variables_message))
       \<and> input_loop L (s # rest) =
           prepend [Prompt,
                    Print (retry_message
                             (ValueError (invalid_message (strip s) no_variables_message)))]
             (input_loop L rest)"
proof -
  have p: "parse_boolean_expression L t =
             Inl (ValueError (invalid_message (strip s) no_variables_message))"
    if "strip t = strip s" for t
    using assms that
    by (simp add: parse_boolean_expression_def parse_body_def Let_def)
  from p [of s] p [of "strip s"] assms(1) show ?thesis
    by (simp add: strip_idem Let_def)
qed

theorem no_variables_error_witness:
  "strip (ascii ''()'') \<noteq> []
   \<and> extract_variables (re_word (formula_libs (\<lambda>c. False)))
        (translate (strip (ascii ''()''))) = []
   \<and> parse_boolean_expression (formula_libs (\<lambda>c. False)) (ascii ''()'') =
       Inl (ValueError (invalid_message (strip (ascii ''()'')) no_variables_message))"
proof -
  have a: "strip (ascii ''()'') \<noteq> []"
    by (simp add: ascii_simps strip_def is_space_def)
  have b: "extract_variables (re_word (formula_libs (\<lambda>c. False)))
             (translate (strip (ascii ''()''))) = []"
    by (simp add: ascii_simps strip_def is_space_def translate_def replace_def
          formula_libs_def regex_eval)
  from no_variables_error [OF a b] a b show ?thesis
    by blast
qed

theorem no_variables_error_counterexample:
  "parse_boolean_expression (formula_libs (\<lambda>c. False)) (ascii ''()'') =
     Inl (ValueError
            (ascii ''Invalid Boolean expression: '' @ [39] @ ascii ''()'' @ [39]
               @ ascii ''.'' @ [10] @ ascii ''Error: '' @ no_variables_message))
   \<and> parse_boolean_expression (formula_libs (\<lambda>c. False)) (ascii ''()'') \<noteq>
     Inl (ValueError no_variables_message)"
proof -
  have "extract_variables (\<lambda>c. False) [40, 41] = []"
    by (simp add: regex_eval)
  then have "parse_boolean_expression (formula_libs (\<lambda>c. False)) (ascii ''()'') =
     Inl (ValueError (invalid_message [40, 41] no_variables_message))"
    by (simp add: parse_boolean_expression_def parse_body_def Let_def ascii_simps
          strip_def is_space_def translate_def replace_def formula_libs_def)
  then show ?thesis
    by (simp add: invalid_message_def ascii_simps)
qed

section \<open>The main program and the document\<close>

text \<open>
  C7, as the code has it. For every run that ends normally, exactly one document is
  saved; its caption paragraph is the label \<open>Boolean function: \<close> followed by the
  text of the first accepted input line with the whitespace at both ends removed,
  as it was before any symbol was substituted. Whitespace that the user entered
  before or after the expression is not in the caption: the main program strips the
  line it has read before it does anything else with it. The counterexample is the
  input line \<open>A\<close> followed by a space: the caption is \<open>Boolean function: A\<close>, in which
  the entered text does not occur.
\<close>

theorem caption_shows_stripped_input:
  assumes "main L wd = (evs, None)"
  shows "\<exists>pre line post doc.
           stdin wd = pre @ line # post
         \<and> list_all (\<lambda>l. \<not> accepted L l) pre
         \<and> accepted L line
         \<and> saved_docs evs = [doc]
         \<and> caption doc = ascii ''Boolean function: '' @ strip line"
proof -
  from main_normal [OF assms] obtain pre line post expr variables vars_names rows_data where
    run: "stdin wd = pre @ line # post" "list_all (\<lambda>l. \<not> accepted L l) pre"
      "strip line \<noteq> []"
      "parse_boolean_expression L (strip line) = Inr (expr, variables, vars_names)"
      "saved_docs evs =
         [\<lparr>caption = ascii ''Boolean function: '' @ strip line,
           cells = ([8470] # vars_names @ [ascii ''f'']) # rows_data\<rparr>]"
    by blast
  have "accepted L line"
    using run(3,4) by (simp add: accepted_def)
  with run(1,2,5) show ?thesis
    by (metis docx.select_convs(1))
qed

theorem caption_shows_stripped_input_witness:
  "main (formula_libs (\<lambda>c. False)) \<lparr>stdin = [[65, 32]], save_error = None\<rparr> =
     ([Prompt,
       Save output_file_default
         \<lparr>caption = ascii ''Boolean function: '' @ [65],
          cells = [[[8470], [65], [102]], [[48], [48], [48]], [[49], [49], [49]]]\<rparr>,
       Print (saved_message output_file_default)], None)
   \<and> (\<exists>pre line post doc.
         stdin \<lparr>stdin = [[65, 32]], save_error = None\<rparr> = pre @ line # post
       \<and> accepted (formula_libs (\<lambda>c. False)) line
       \<and> saved_docs
            [Prompt,
             Save output_file_default
               \<lparr>caption = ascii ''Boolean function: '' @ [65],
                cells = [[[8470], [65], [102]], [[48], [48], [48]], [[49], [49], [49]]]\<rparr>,
             Print (saved_message output_file_default)] = [doc]
       \<and> caption doc = ascii ''Boolean function: '' @ strip line)"
proof -
  note run = main_A_space [of "\<lambda>c. False"]
  from caption_shows_stripped_input [OF run] run show ?thesis
    by blast
qed

theorem caption_counterexample:
  "main (formula_libs (\<lambda>c. False)) \<lparr>stdin = [ascii ''A ''], save_error = None\<rparr> =
     ([Prompt,
       Save output_file_default
         \<lparr>caption = ascii ''Boolean function: A'',
          cells = [[[8470], ascii ''A'', ascii ''f''],
                   map ascii [''0'', ''0'', ''0''],
                   map ascii [''1'', ''1'', ''1'']]\<rparr>,
       Print (saved_message output_file_default)], None)
   \<and> ascii ''Boolean function: A'' \<noteq> ascii ''Boolean function: '' @ ascii ''A ''
   \<and> \<not> sublist (ascii ''A '') (ascii ''Boolean function: A'')"
proof -
  have "main (formula_libs (\<lambda>c. False)) \<lparr>stdin = [ascii ''A ''], save_error = None\<rparr> =
     ([Prompt,
       Save output_file_default
         \<lparr>caption = ascii ''Boolean function: A'',
          cells = [[[8470], ascii ''A'', ascii ''f''],
                   map ascii [''0'', ''0'', ''0''],
                   map ascii [''1'', ''1'', ''1'']]\<rparr>,
       Print (saved_message output_file_default)], None)"
    using main_A_space [of "\<lambda>c. False"] by (simp add: ascii_simps)
  moreover have "ascii ''Boolean function: A'' \<noteq> ascii ''Boolean function: '' @ ascii ''A ''"
    by (simp add: ascii_simps)
  moreover have "\<not> sublist (ascii ''A '') (ascii ''Boolean function: A'')"
    by (simp add: ascii_simps sublist_Cons_right)
  ultimately show ?thesis by blast
qed

text \<open>
  C8. For every run that ends normally, with \<open>N\<close> the number of variables of the
  accepted input, exactly one document is saved; the first row of its table is the
  numero sign, the variable names in their order, and \<open>f\<close>; the table has exactly
  \<open>2 ^ N + 1\<close> rows; and every row has \<open>N + 2\<close> cells.
\<close>

theorem table_header_and_size:
  assumes "main L wd = (evs, None)"
  shows "\<exists>pre line post expr variables vars_names doc.
           stdin wd = pre @ line # post
         \<and> list_all (\<lambda>l. \<not> accepted L l) pre
         \<and> parse_boolean_expression L (strip line) = Inr (expr, variables, vars_names)
         \<and> saved_docs evs = [doc]
         \<and> hd (cells doc) = [8470] # vars_names @ [ascii ''f'']
         \<and> length (cells doc) = 2 ^ length vars_names + 1
         \<and> list_all (\<lambda>row. length row = length vars_names + 2) (cells doc)"
proof -
  from main_normal [OF assms] obtain pre line post expr variables vars_names rows_data where
    run: "stdin wd = pre @ line # post" "list_all (\<lambda>l. \<not> accepted L l) pre"
      "parse_boolean_expression L (strip line) = Inr (expr, variables, vars_names)"
      "generate_truth_table L expr variables = Inr rows_data"
      "saved_docs evs =
         [\<lparr>caption = ascii ''Boolean function: '' @ strip line,
           cells = ([8470] # vars_names @ [ascii ''f'']) # rows_data\<rparr>]"
    by blast
  let ?doc = "\<lparr>caption = ascii ''Boolean function: '' @ strip line,
               cells = ([8470] # vars_names @ [ascii ''f'']) # rows_data\<rparr>"
  have vars: "length variables = length vars_names"
    using parse_boolean_expression_Inr(4) [OF run(3)] by simp
  have hd: "hd (cells ?doc) = [8470] # vars_names @ [ascii ''f'']"
    by simp
  have len: "length (cells ?doc) = 2 ^ length vars_names + 1"
    using generate_truth_table_rows(1) [OF run(4)] vars by simp
  have width: "list_all (\<lambda>row. length row = length vars_names + 2) (cells ?doc)"
    using generate_truth_table_row_lengths [OF run(4)] vars by (simp add: list_all_iff)
  from run(1,2,3,5) hd len width show ?thesis
    by blast
qed

theorem table_header_and_size_witness:
  "main (formula_libs (\<lambda>c. False)) \<lparr>stdin = [[65, 42, 66]], save_error = None\<rparr> =
     ([Prompt,
       Save output_file_default
         \<lparr>caption = ascii ''Boolean function: '' @ [65, 42, 66],
          cells = [[[8470], [65], [66], [102]],
                   [[48], [48], [48], [48]], [[49], [48], [49], [48]],
                   [[50], [49], [48], [48]], [[51], [49], [49], [49]]]\<rparr>,
       Print (saved_message output_file_default)], None)
   \<and> (\<exists>pre line post expr variables vars_names doc.
         stdin \<lparr>stdin = [[65, 42, 66]], save_error = None\<rparr> = pre @ line # post
       \<and> parse_boolean_expression (formula_libs (\<lambda>c. False)) (strip line)
           = Inr (expr, variables, vars_names)
       \<and> saved_docs
            [Prompt,
             Save output_file_default
               \<lparr>caption = ascii ''Boolean function: '' @ [65, 42, 66],
                cells = [[[8470], [65], [66], [102]],
                         [[48], [48], [48], [48]], [[49], [48], [49], [48]],
                         [[50], [49], [48], [48]], [[51], [49], [49], [49]]]\<rparr>,
             Print (saved_message output_file_default)] = [doc]
       \<and> hd (cells doc) = [8470] # vars_names @ [ascii ''f'']
       \<and> length (cells doc) = 2 ^ length vars_names + 1)"
proof -
  note run = main_A_and_B [of "\<lambda>c. False"]
  from table_header_and_size [OF run] run show ?thesis
    by blast
qed

text \<open>
  C9. For every input line that is not empty after stripping and that the translator
  refuses (the expression library could not parse it, or no variable was found),
  the translator raises a \<open>ValueError\<close> with the invalid-expression message for that
  line; the input loop prints it and asks again, so that the run goes on exactly as
  it would on the remaining lines, with nothing rendered or saved for the refused
  line; and a run that is given only this line saves no document at all and ends
  at the next prompt with \<open>EOFError\<close>.
\<close>

theorem rejected_input_writes_nothing:
  assumes "strip line \<noteq> []"
      and "parse_boolean_expression L (strip line) = Inl err"
  shows "(\<exists>reason. err = ValueError (invalid_message (strip line) reason))
       \<and> input_loop L (line # rest) =
           prepend [Prompt, Print (retry_message err)] (input_loop L rest)
       \<and> main L \<lparr>stdin = line # rest, save_error = se\<rparr> =
           prepend [Prompt, Print (retry_message err)]
             (main L \<lparr>stdin = rest, save_error = se\<rparr>)
       \<and> main L \<lparr>stdin = [line], save_error = se\<rparr> =
           ([Prompt, Print (retry_message err), Prompt], Some EOFError)"
proof -
  have msg: "\<exists>reason. err = ValueError (invalid_message (strip line) reason)"
    using parse_boolean_expression_Inl [OF assms(2)] assms(1)
    by (auto simp: strip_idem)
  have loop: "input_loop L (line # rest') =
                prepend [Prompt, Print (retry_message err)] (input_loop L rest')" for rest'
    by (rule input_loop_rejects_invalid [OF assms])
  have run: "main L \<lparr>stdin = line # rest', save_error = se\<rparr> =
           prepend [Prompt, Print (retry_message err)]
             (main L \<lparr>stdin = rest', save_error = se\<rparr>)" for rest'
    by (rule main_prepend [OF loop])
  have "main L \<lparr>stdin = [], save_error = se\<rparr> = ([Prompt], Some EOFError)"
    by (simp add: main_def)
  then have "main L \<lparr>stdin = [line], save_error = se\<rparr> =
           ([Prompt, Print (retry_message err), Prompt], Some EOFError)"
    unfolding run [of "[]"] by (simp add: prepend_def)
  with msg loop run show ?thesis
    by blast
qed

theorem rejected_input_writes_nothing_witness:
  "strip (ascii ''(A'') \<noteq> []
   \<and> parse_boolean_expression (formula_libs (\<lambda>c. False)) (strip (ascii ''(A'')) =
       Inl (ValueError (invalid_message [40, 65] (exn_str library_failure)))
   \<and> main (formula_libs (\<lambda>c. False)) \<lparr>stdin = [ascii ''(A''], save_error = None\<rparr> =
       ([Prompt,
         Print (retry_message
                  (ValueError (invalid_message [40, 65] (exn_str library_failure)))),
         Prompt], Some EOFError)"
proof -
  have s: "strip (ascii ''(A'') = [40, 65]"
    by (simp add: ascii_simps strip_def is_space_def)
  have a: "strip (ascii ''(A'') \<noteq> []"
    unfolding s by simp
  have b: "parse_boolean_expression (formula_libs (\<lambda>c. False)) (strip (ascii ''(A'')) =
       Inl (ValueError (invalid_message [40, 65] (exn_str library_failure)))"
    unfolding s by (rule parse_unbalanced)
  from rejected_input_writes_nothing [OF a b, of "[]" None] a b show ?thesis
    by blast
qed

end
